theory Spec2Isabelle
  imports Complex_Main "HOL-Library.Sublist" "HOL-Library.Code_Target_Nat"
begin

section \<open>Feishu file downloader: a shallow embedding of feishu\_download\_files.py\<close>

text \<open>
  The script authenticates against the vendor API, lists a remote folder page by page,
  walks it recursively and downloads every file. The embedding follows the script
  function by function and keeps its names.

  \<^item> A Python string is the list of its code points, each a natural number; a literal
    of the script is written \<open>u ''...''\<close>.
  \<^item> \<open>str.lower\<close> is the interpreter's algorithm, with its rule for the Greek capital
    sigma. Of the tables of the Unicode database it reads, the part below code point 128 is
    written out; the part from 128 on is a parameter, a field of the environment.
  \<^item> Everything outside the script (the HTTP endpoints, the local file system, the
    clock, the Unicode tables) is an environment: a record of functions over a world
    state \<open>'w\<close>. Each call returns its answer and the next world, so an environment is an
    arbitrary deterministic machine. A request that raises (a connection error,
    \<open>raise_for_status\<close>, or a body that is not the JSON object the script reads) is the
    answer \<open>None\<close>.
  \<^item> An exception is a value \<open>Inl e\<close>; a function that may run forever returns an
    option, \<open>None\<close> when it does not return.
  \<^item> Every call to the environment is appended to a log of events, so that the order
    and the arguments of the calls can be stated. Of the script's \<open>print\<close> calls only
    those of the exception handlers are logged.
\<close>

subsection \<open>Strings\<close>

type_synonym ustr = "nat list"

definition u :: "string \<Rightarrow> ustr" where
  "u s = map of_char s"

definition ord :: "nat \<Rightarrow> nat" where
  "ord c = c"

text \<open>\<open>str.isspace\<close>, which is also what \<open>str.strip\<close> removes: the 29 code points
  U+0009 to U+000D, U+001C to U+0020, U+0085, U+00A0, U+1680, U+2000 to U+200A, U+2028,
  U+2029, U+202F, U+205F and U+3000.\<close>

definition isspace :: "nat \<Rightarrow> bool" where
  "isspace c =
     ((9 \<le> c \<and> c \<le> 13) \<or> (28 \<le> c \<and> c \<le> 32) \<or> c = 133 \<or> c = 160 \<or> c = 5760
      \<or> (8192 \<le> c \<and> c \<le> 8202) \<or> c = 8232 \<or> c = 8233 \<or> c = 8239 \<or> c = 8287
      \<or> c = 12288)"

definition strip :: "ustr \<Rightarrow> ustr" where
  "strip s = rev (dropWhile isspace (rev (dropWhile isspace s)))"

definition lstrip :: "ustr \<Rightarrow> nat \<Rightarrow> ustr" where
  "lstrip s c = dropWhile (\<lambda>x. x = c) s"

text \<open>\<open>name.replace(old, new)\<close> for one-character arguments.\<close>

definition replace :: "ustr \<Rightarrow> nat \<Rightarrow> nat \<Rightarrow> ustr" where
  "replace name old new = map (\<lambda>c. if c = old then new else c) name"

text \<open>The three tables \<open>str.lower\<close> reads, from code point 128 on: the lower-case
  mapping of a code point (one or more code points), and the properties Cased and
  Case\_Ignorable.\<close>

record ucd =
  ucd_lower :: "nat \<Rightarrow> ustr"
  ucd_cased :: "nat \<Rightarrow> bool"
  ucd_case_ignorable :: "nat \<Rightarrow> bool"

text \<open>Below 128: the letters A to Z map to a to z and every other code point to itself;
  the letters are cased; apostrophe, full stop, colon, circumflex and grave accent are
  case-ignorable.\<close>

definition to_lower_full :: "ucd \<Rightarrow> nat \<Rightarrow> ustr" where
  "to_lower_full db c =
     (if c < 128 then [if 65 \<le> c \<and> c \<le> 90 then c + 32 else c] else ucd_lower db c)"

definition cased :: "ucd \<Rightarrow> nat \<Rightarrow> bool" where
  "cased db c =
     (if c < 128 then (65 \<le> c \<and> c \<le> 90) \<or> (97 \<le> c \<and> c \<le> 122) else ucd_cased db c)"

definition case_ignorable :: "ucd \<Rightarrow> nat \<Rightarrow> bool" where
  "case_ignorable db c =
     (if c < 128 then c = 39 \<or> c = 46 \<or> c = 58 \<or> c = 94 \<or> c = 96
      else ucd_case_ignorable db c)"

text \<open>The interpreter's test for a capital sigma (U+03A3) at the end of a word: going
  back over case-ignorable characters there is a cased one, and going forward over
  case-ignorable characters there is none. \<open>seen\<close> and \<open>rest\<close> are the characters on
  the two sides of the sigma.\<close>

definition final_sigma :: "ucd \<Rightarrow> ustr \<Rightarrow> ustr \<Rightarrow> bool" where
  "final_sigma db seen rest =
     (case dropWhile (case_ignorable db) (rev seen) of
        [] \<Rightarrow> False
      | c # cs \<Rightarrow>
          cased db c \<and>
          (case dropWhile (case_ignorable db) rest of
             [] \<Rightarrow> True
           | d # ds \<Rightarrow> \<not> cased db d))"

text \<open>\<open>str.lower\<close>: every character is replaced by its lower-case mapping, a capital
  sigma by the final small sigma (U+03C2) at the end of a word and by the small sigma
  (U+03C3) elsewhere.\<close>

fun lower_from :: "ucd \<Rightarrow> ustr \<Rightarrow> ustr \<Rightarrow> ustr" where
  "lower_from db seen [] = []"
| "lower_from db seen (c # rest) =
     (if c = 931 then [if final_sigma db seen rest then 962 else 963]
      else to_lower_full db c)
     @ lower_from db (seen @ [c]) rest"

definition lower :: "ucd \<Rightarrow> ustr \<Rightarrow> ustr" where
  "lower db s = lower_from db [] s"

definition endswith :: "ustr \<Rightarrow> ustr \<Rightarrow> bool" where
  "endswith s suf =
     (length suf \<le> length s \<and> drop (length s - length suf) s = suf)"

text \<open>\<open>s.rfind(c)\<close>: the highest index of \<open>c\<close>, or \<open>-1\<close>.\<close>

definition rfind :: "ustr \<Rightarrow> nat \<Rightarrow> int" where
  "rfind s c =
     (if c \<in> set s
      then int (length s) - 1 - int (length (takeWhile (\<lambda>x. x \<noteq> c) (rev s)))
      else - 1)"

text \<open>\<open>Path(name).suffix\<close> for a name without a path separator, as pathlib computes
  it up to Python 3.12: the part from the last full stop on, unless that
  is the first or the last character.\<close>

definition path_suffix :: "ustr \<Rightarrow> ustr" where
  "path_suffix name =
     (let i = rfind name (of_char CHR ''.'')
      in if 0 < i \<and> i < int (length name) - 1 then drop (nat i) name else [])"

text \<open>\<open>str(v)\<close> inside an f-string, for a value that is a string or \<open>None\<close>.\<close>

definition str :: "ustr option \<Rightarrow> ustr" where
  "str v = (case v of Some s \<Rightarrow> s | None \<Rightarrow> u ''None'')"

text \<open>\<open>d.get(k, dflt)\<close> on a dictionary literal.\<close>

definition dict_get :: "('k \<times> 'v) list \<Rightarrow> 'k \<Rightarrow> 'v \<Rightarrow> 'v" where
  "dict_get d k dflt = (case map_of d k of Some v \<Rightarrow> v | None \<Rightarrow> dflt)"

subsection \<open>Constants of the script\<close>

definition TYPE_TO_EXT :: "(ustr \<times> ustr) list" where
  "TYPE_TO_EXT =
    [(u ''docx'', u ''.docx''), (u ''doc'', u ''.doc''), (u ''xlsx'', u ''.xlsx''), (u ''xls'', u ''.xls''),
     (u ''pptx'', u ''.pptx''), (u ''ppt'', u ''.ppt''), (u ''pdf'', u ''.pdf''), (u ''txt'', u ''.txt''),
     (u ''jpg'', u ''.jpg''), (u ''jpeg'', u ''.jpg''), (u ''png'', u ''.png''), (u ''gif'', u ''.gif''),
     (u ''bmp'', u ''.bmp''), (u ''mp4'', u ''.mp4''), (u ''mp3'', u ''.mp3''), (u ''zip'', u ''.zip''),
     (u ''rar'', u ''.rar'')]"

text \<open>The two type lists of \<open>process_file\<close> (lines 297 and 306).\<close>

definition export_types :: "ustr list" where
  "export_types =
     map u [''doc'', ''docx'', ''xlsx'', ''xls'', ''pptx'', ''ppt'', ''pdf'', ''sheet'',
            ''slide'', ''bitable'']"

definition binary_types :: "ustr list" where
  "binary_types =
     map u [''jpg'', ''jpeg'', ''png'', ''gif'', ''bmp'', ''mp4'', ''mp3'', ''zip'', ''rar'']"

subsection \<open>sanitize\_filename\<close>

text \<open>The nine characters \<open>< > : " / \ | ? *\<close> of \<open>invalid_chars\<close>, and the underscore.\<close>

definition invalid_chars :: ustr where
  "invalid_chars =
     map of_char [CHR ''<'', CHR ''>'', CHR '':'', CHR 0x22, CHR ''/'', CHR 0x5C, CHR ''|'',
                  CHR ''?'', CHR ''*'']"

definition underscore :: nat where
  "underscore = of_char CHR ''_''"

definition sanitize_filename :: "ustr \<Rightarrow> ustr" where
  "sanitize_filename name =
     (let name1 = fold (\<lambda>char n. replace n char underscore) invalid_chars name;
          name2 = filter (\<lambda>char. ord char \<ge> 32) name1;
          name3 = strip name2
      in if name3 \<noteq> [] then name3 else u ''unnamed_file'')"

subsection \<open>Paths, headers, errors and the vendor's data\<close>

text \<open>A relative POSIX path as pathlib holds it: the list of its components, none of
  them \<open>.\<close>. \<open>output_dir / name\<close>, for a name that is not empty and has no separator,
  appends the name as one component, unless the name is \<open>.\<close>, which pathlib drops; a
  component \<open>..\<close> is kept as it is, and it is the file system that reads it as the
  directory above. \<open>.parent\<close> removes the last component.\<close>

type_synonym path = "ustr list"

definition joinpath :: "path \<Rightarrow> ustr \<Rightarrow> path" where
  "joinpath p name = (if name = u ''.'' then p else p @ [name])"

definition parent :: "path \<Rightarrow> path" where
  "parent p = butlast p"

type_synonym headers = "(ustr \<times> ustr) list"

definition get_headers :: "ustr \<Rightarrow> headers" where
  "get_headers token =
     [(u ''Authorization'', u ''Bearer '' @ token),
      (u ''Content-Type'', u ''application/json'')]"

text \<open>The exceptions of the script, one constructor for each \<open>raise\<close> and each kind of
  library failure: a failed request, a failed file-system call, the \<open>TypeError\<close> of
  slicing \<open>None\<close> in \<open>main\<close>, and \<open>sys.exit(1)\<close>. The messages are left out.\<close>

datatype error =
    HTTP_error
  | Failed_to_get_access_token
  | Failed_to_list_files
  | Failed_to_get_download_url
  | Failed_to_create_export_task
  | Failed_to_query_export_task
  | Export_task_failed
  | Export_task_timed_out
  | OS_error
  | Type_error
  | System_exit

text \<open>One entry of a folder listing, with string values as the vendor sends them. A key
  that is absent is \<open>None\<close>.\<close>

record file_info =
  fi_token :: "ustr option"
  fi_name :: "ustr option"
  fi_type :: "ustr option"

text \<open>The JSON bodies the script reads, one record for each endpoint, holding the keys
  the script looks at. Where the script gives a default for an absent key
  (\<open>files\<close>, \<open>has_more\<close>, \<open>page_token\<close>) the field holds the default.\<close>

record token_data =
  td_code :: int
  td_tenant_access_token :: "ustr option"

record files_data =
  fd_code :: int
  fd_files :: "file_info list"
  fd_has_more :: bool
  fd_page_token :: ustr

record url_data =
  ud_code :: int
  ud_url :: "ustr option"

record ticket_data =
  kd_code :: int
  kd_ticket :: "ustr option"

record status_data =
  sd_code :: int
  sd_job_status :: "int option"
  sd_file_token :: "ustr option"
  sd_task_status :: "ustr option"

type_synonym content = string

subsection \<open>The environment and the event log\<close>

datatype event =
    Auth_request "ustr option" "ustr option"
  | List_request headers "ustr option" nat "ustr option"
  | Download_url_request headers "ustr option"
  | Url_fetch "ustr option"
  | Export_create headers "ustr option" ustr "ustr option"
  | Export_query headers "ustr option" "ustr option"
  | Export_fetch headers "ustr option"
  | Mkdir path
  | Write_file path
  | Sleep real
  | Print_error string error

record 'w env =
  post_auth :: "ustr option \<Rightarrow> ustr option \<Rightarrow> 'w \<Rightarrow> token_data option \<times> 'w"
  get_files ::
    "headers \<Rightarrow> ustr option \<Rightarrow> nat \<Rightarrow> ustr option \<Rightarrow> 'w \<Rightarrow> files_data option \<times> 'w"
  get_download :: "headers \<Rightarrow> ustr option \<Rightarrow> 'w \<Rightarrow> url_data option \<times> 'w"
  get_url :: "ustr option \<Rightarrow> 'w \<Rightarrow> content option \<times> 'w"
  post_export ::
    "headers \<Rightarrow> ustr option \<Rightarrow> ustr \<Rightarrow> ustr option \<Rightarrow> 'w \<Rightarrow> ticket_data option \<times> 'w"
  get_export :: "headers \<Rightarrow> ustr option \<Rightarrow> ustr option \<Rightarrow> 'w \<Rightarrow> status_data option \<times> 'w"
  get_export_file :: "headers \<Rightarrow> ustr option \<Rightarrow> 'w \<Rightarrow> content option \<times> 'w"
  mkdir :: "path \<Rightarrow> 'w \<Rightarrow> bool \<times> 'w"
  write_file :: "path \<Rightarrow> content \<Rightarrow> 'w \<Rightarrow> bool \<times> 'w"
  time_now :: "'w \<Rightarrow> real"
  time_sleep :: "real \<Rightarrow> 'w \<Rightarrow> 'w"
  unicode :: ucd

type_synonym 'w state = "'w \<times> event list"

text \<open>\<open>requests.get\<close> or \<open>requests.post\<close>, then \<open>raise_for_status\<close>, then the body.\<close>

definition request ::
  "event \<Rightarrow> ('w \<Rightarrow> 'a option \<times> 'w) \<Rightarrow> 'w state \<Rightarrow> (error + 'a) \<times> 'w state" where
  "request ev call s =
     (case call (fst s) of
        (None, w) \<Rightarrow> (Inl HTTP_error, (w, snd s @ [ev]))
      | (Some data, w) \<Rightarrow> (Inr data, (w, snd s @ [ev])))"

text \<open>A file-system call, which succeeds or raises \<open>OSError\<close>.\<close>

definition fs_op ::
  "event \<Rightarrow> ('w \<Rightarrow> bool \<times> 'w) \<Rightarrow> 'w state \<Rightarrow> (error + unit) \<times> 'w state" where
  "fs_op ev call s =
     (case call (fst s) of
        (False, w) \<Rightarrow> (Inl OS_error, (w, snd s @ [ev]))
      | (True, w) \<Rightarrow> (Inr (), (w, snd s @ [ev])))"

definition print_error :: "string \<Rightarrow> error \<Rightarrow> 'w state \<Rightarrow> 'w state" where
  "print_error msg e s = (fst s, snd s @ [Print_error msg e])"

subsection \<open>The API functions\<close>

text \<open>\<open>get_tenant_access_token\<close> reads the two credentials from the module's globals;
  here they are its arguments.\<close>

definition get_tenant_access_token ::
  "'w env \<Rightarrow> ustr option \<Rightarrow> ustr option \<Rightarrow> 'w state
    \<Rightarrow> (error + ustr option) \<times> 'w state" where
  "get_tenant_access_token env FEISHU_APP_ID FEISHU_APP_SECRET s =
     (case request (Auth_request FEISHU_APP_ID FEISHU_APP_SECRET)
             (post_auth env FEISHU_APP_ID FEISHU_APP_SECRET) s of
        (Inl e, s1) \<Rightarrow> (Inl e, s1)
      | (Inr data, s1) \<Rightarrow>
          if td_code data \<noteq> 0 then (Inl Failed_to_get_access_token, s1)
          else (Inr (td_tenant_access_token data), s1))"

text \<open>The \<open>while True\<close> loop of \<open>list_files_in_folder\<close>; \<open>files\<close> and \<open>page_token\<close> are
  its two variables. The \<open>page_token\<close> parameter is sent only when it is not empty.\<close>

partial_function (option) list_files_loop ::
  "'w env \<Rightarrow> ustr \<Rightarrow> ustr option \<Rightarrow> file_info list \<Rightarrow> ustr \<Rightarrow> 'w state
    \<Rightarrow> ((error + file_info list) \<times> 'w state) option" where
  "list_files_loop env token folder_token files page_token s =
     (let pt = (if page_token \<noteq> [] then Some page_token else None) in
      case request (List_request (get_headers token) folder_token 50 pt)
             (get_files env (get_headers token) folder_token 50 pt) s of
        (Inl e, s1) \<Rightarrow> Some (Inl e, s1)
      | (Inr data, s1) \<Rightarrow>
          if fd_code data \<noteq> 0 then Some (Inl Failed_to_list_files, s1)
          else if \<not> fd_has_more data then Some (Inr (files @ fd_files data), s1)
          else list_files_loop env token folder_token (files @ fd_files data)
                 (fd_page_token data) s1)"

definition list_files_in_folder ::
  "'w env \<Rightarrow> ustr \<Rightarrow> ustr option \<Rightarrow> 'w state
    \<Rightarrow> ((error + file_info list) \<times> 'w state) option" where
  "list_files_in_folder env token folder_token s =
     list_files_loop env token folder_token [] [] s"

definition get_file_download_url ::
  "'w env \<Rightarrow> ustr \<Rightarrow> ustr option \<Rightarrow> 'w state \<Rightarrow> (error + ustr option) \<times> 'w state" where
  "get_file_download_url env token file_token s =
     (case request (Download_url_request (get_headers token) file_token)
             (get_download env (get_headers token) file_token) s of
        (Inl e, s1) \<Rightarrow> (Inl e, s1)
      | (Inr data, s1) \<Rightarrow>
          if ud_code data \<noteq> 0 then (Inl Failed_to_get_download_url, s1)
          else (Inr (ud_url data), s1))"

text \<open>The last steps of \<open>download_file\<close> and of \<open>download_exported_file\<close>, which are the
  same lines: create the parent directory, then write the body.\<close>

definition save :: "'w env \<Rightarrow> content \<Rightarrow> path \<Rightarrow> 'w state \<Rightarrow> (error + unit) \<times> 'w state" where
  "save env body output_path s =
     (case fs_op (Mkdir (parent output_path)) (mkdir env (parent output_path)) s of
        (Inl e, s1) \<Rightarrow> (Inl e, s1)
      | (Inr ok, s1) \<Rightarrow> fs_op (Write_file output_path) (write_file env output_path body) s1)"

text \<open>\<open>download_file\<close> fetches the URL with no headers.\<close>

definition download_file ::
  "'w env \<Rightarrow> ustr option \<Rightarrow> path \<Rightarrow> 'w state \<Rightarrow> (error + unit) \<times> 'w state" where
  "download_file env url output_path s =
     (case request (Url_fetch url) (get_url env url) s of
        (Inl e, s1) \<Rightarrow> (Inl e, s1)
      | (Inr body, s1) \<Rightarrow> save env body output_path s1)"

definition create_export_task ::
  "'w env \<Rightarrow> ustr \<Rightarrow> ustr option \<Rightarrow> ustr \<Rightarrow> ustr \<Rightarrow> 'w state
    \<Rightarrow> (error + ustr option) \<times> 'w state" where
  "create_export_task env token file_token file_type file_extension s =
     (let fe = (if file_extension \<noteq> [] then Some file_extension else None) in
      case request (Export_create (get_headers token) file_token file_type fe)
             (post_export env (get_headers token) file_token file_type fe) s of
        (Inl e, s1) \<Rightarrow> (Inl e, s1)
      | (Inr data, s1) \<Rightarrow>
          if kd_code data \<noteq> 0 then (Inl Failed_to_create_export_task, s1)
          else (Inr (kd_ticket data), s1))"

text \<open>The poll loop of \<open>query_export_task\<close>. The clock is read from the world;
  \<open>time.sleep(1)\<close> is the environment's \<open>time_sleep\<close> with the constant 1.\<close>

partial_function (option) query_loop ::
  "'w env \<Rightarrow> ustr \<Rightarrow> ustr option \<Rightarrow> ustr option \<Rightarrow> real \<Rightarrow> real \<Rightarrow> 'w state
    \<Rightarrow> ((error + ustr option) \<times> 'w state) option" where
  "query_loop env token ticket file_token max_wait start_time s =
     (if time_now env (fst s) - start_time < max_wait then
        (case request (Export_query (get_headers token) ticket file_token)
                (get_export env (get_headers token) ticket file_token) s of
           (Inl e, s1) \<Rightarrow> Some (Inl e, s1)
         | (Inr data, s1) \<Rightarrow>
             if sd_code data \<noteq> 0 then Some (Inl Failed_to_query_export_task, s1)
             else if sd_job_status data = Some 0 then Some (Inr (sd_file_token data), s1)
             else if sd_job_status data = Some 2 then Some (Inl Export_task_failed, s1)
             else if sd_job_status data = None \<and> sd_task_status data = Some (u ''done'')
               then Some (Inr (sd_file_token data), s1)
             else if sd_job_status data = None \<and> sd_task_status data = Some (u ''failed'')
               then Some (Inl Export_task_failed, s1)
             else query_loop env token ticket file_token max_wait start_time
                    (time_sleep env 1 (fst s1), snd s1 @ [Sleep 1]))
      else Some (Inl Export_task_timed_out, s))"

definition query_export_task ::
  "'w env \<Rightarrow> ustr \<Rightarrow> ustr option \<Rightarrow> ustr option \<Rightarrow> real \<Rightarrow> 'w state
    \<Rightarrow> ((error + ustr option) \<times> 'w state) option" where
  "query_export_task env token ticket file_token max_wait s =
     query_loop env token ticket file_token max_wait (time_now env (fst s)) s"

definition download_exported_file ::
  "'w env \<Rightarrow> ustr \<Rightarrow> ustr option \<Rightarrow> path \<Rightarrow> 'w state \<Rightarrow> (error + unit) \<times> 'w state" where
  "download_exported_file env token export_file_token output_path s =
     (case request (Export_fetch (get_headers token) export_file_token)
             (get_export_file env (get_headers token) export_file_token) s of
        (Inl e, s1) \<Rightarrow> (Inl e, s1)
      | (Inr body, s1) \<Rightarrow> save env body output_path s1)"

subsection \<open>process\_file\<close>

text \<open>Lines 279 to 286 and 289 to 290: the extension, and the name that carries it.\<close>

definition determine_extension :: "ucd \<Rightarrow> ustr \<Rightarrow> ustr \<Rightarrow> ustr" where
  "determine_extension db file_type file_name =
     (let extension = dict_get TYPE_TO_EXT (lower db file_type) [] in
      if extension = [] \<and> file_name \<noteq> [] then
        (let ext = path_suffix file_name in if ext \<noteq> [] then ext else u ''.bin'')
      else extension)"

definition ensure_extension :: "ucd \<Rightarrow> ustr \<Rightarrow> ustr \<Rightarrow> ustr" where
  "ensure_extension db file_name extension =
     (if \<not> endswith (lower db file_name) (lower db extension) then file_name @ extension
      else file_name)"

text \<open>The export workflow, lines 300 to 303 and again 324 to 327 (\<open>max_wait\<close> keeps its
  default 60), and the direct download, lines 308 to 309 and again 315 to 316.\<close>

definition export_download ::
  "'w env \<Rightarrow> ustr \<Rightarrow> ustr option \<Rightarrow> ustr \<Rightarrow> ustr \<Rightarrow> path \<Rightarrow> 'w state
    \<Rightarrow> ((error + unit) \<times> 'w state) option" where
  "export_download env token file_token file_type extension output_path s =
     (let ext_for_api = (if extension \<noteq> [] then lstrip extension (of_char CHR ''.'') else file_type) in
      case create_export_task env token file_token file_type ext_for_api s of
        (Inl e, s1) \<Rightarrow> Some (Inl e, s1)
      | (Inr ticket, s1) \<Rightarrow>
          (case query_export_task env token ticket file_token 60 s1 of
             None \<Rightarrow> None
           | Some (Inl e, s2) \<Rightarrow> Some (Inl e, s2)
           | Some (Inr export_file_token, s2) \<Rightarrow>
               Some (download_exported_file env token export_file_token output_path s2)))"

definition direct_download ::
  "'w env \<Rightarrow> ustr \<Rightarrow> ustr option \<Rightarrow> path \<Rightarrow> 'w state \<Rightarrow> (error + unit) \<times> 'w state" where
  "direct_download env token file_token output_path s =
     (case get_file_download_url env token file_token s of
        (Inl e, s1) \<Rightarrow> (Inl e, s1)
      | (Inr download_url, s1) \<Rightarrow> download_file env download_url output_path s1)"

text \<open>Lines 295 to 333: the branch on the file type, inside \<open>try\<close>. No exception
  leaves it, so it returns the state alone.\<close>

definition handle_download ::
  "'w env \<Rightarrow> ustr \<Rightarrow> ustr option \<Rightarrow> ustr \<Rightarrow> ustr \<Rightarrow> path \<Rightarrow> 'w state
    \<Rightarrow> 'w state option" where
  "handle_download env token file_token file_type extension output_path s =
     (if lower (unicode env) file_type \<in> set export_types then
        (case export_download env token file_token file_type extension output_path s of
           None \<Rightarrow> None
         | Some (Inl e, s1) \<Rightarrow> Some (print_error ''Error processing file'' e s1)
         | Some (Inr ok, s1) \<Rightarrow> Some s1)
      else if file_type \<in> set binary_types then
        (case direct_download env token file_token output_path s of
           (Inl e, s1) \<Rightarrow> Some (print_error ''Error processing file'' e s1)
         | (Inr ok, s1) \<Rightarrow> Some s1)
      else
        (case direct_download env token file_token output_path s of
           (Inr ok, s1) \<Rightarrow> Some s1
         | (Inl e, s1) \<Rightarrow>
             (case export_download env token file_token file_type extension output_path
                     (print_error ''Failed to download using download API'' e s1) of
                None \<Rightarrow> None
              | Some (Inl export_error, s2) \<Rightarrow>
                  Some (print_error ''Export task also failed'' export_error s2)
              | Some (Inr ok, s2) \<Rightarrow> Some s2)))"

text \<open>\<open>process_file\<close>, and the \<open>for\<close> loop over a listing that calls it (lines 272 to
  273 and 386 to 387). The remote tree may be infinite, so the recursion carries a bound
  \<open>depth\<close> on the nesting of folders: a folder met at depth 0 gives \<open>None\<close>.\<close>

fun process_file ::
  "nat \<Rightarrow> 'w env \<Rightarrow> ustr \<Rightarrow> file_info \<Rightarrow> path \<Rightarrow> 'w state
    \<Rightarrow> ((error + unit) \<times> 'w state) option"
and process_files ::
  "nat \<Rightarrow> 'w env \<Rightarrow> ustr \<Rightarrow> file_info list \<Rightarrow> path \<Rightarrow> 'w state
    \<Rightarrow> ((error + unit) \<times> 'w state) option"
where
  "process_file depth env token file_info output_dir s =
     (let file_token = fi_token file_info;
          file_name = sanitize_filename
            (case fi_name file_info of Some n \<Rightarrow> n | None \<Rightarrow> u ''file_'' @ str file_token);
          file_type = (case fi_type file_info of Some t \<Rightarrow> t | None \<Rightarrow> [])
      in if file_type = u ''folder'' then
           (case depth of
              0 \<Rightarrow> None
            | Suc d \<Rightarrow>
               (let sub_dir = joinpath output_dir file_name in
                case fs_op (Mkdir sub_dir) (mkdir env sub_dir) s of
                  (Inl e, s1) \<Rightarrow> Some (Inl e, s1)
                | (Inr ok, s1) \<Rightarrow>
                    (case list_files_in_folder env token file_token s1 of
                       None \<Rightarrow> None
                     | Some (Inl e, s2) \<Rightarrow>
                         Some (Inr (), print_error ''Error processing folder'' e s2)
                     | Some (Inr sub_files, s2) \<Rightarrow>
                         (case process_files d env token sub_files sub_dir s2 of
                            None \<Rightarrow> None
                          | Some (Inl e, s3) \<Rightarrow>
                              Some (Inr (), print_error ''Error processing folder'' e s3)
                          | Some (Inr ok, s3) \<Rightarrow> Some (Inr (), s3)))))
         else
           (let extension = determine_extension (unicode env) file_type file_name;
                file_name' = ensure_extension (unicode env) file_name extension;
                output_path = joinpath output_dir file_name'
            in case handle_download env token file_token file_type extension output_path s of
                 None \<Rightarrow> None
               | Some s1 \<Rightarrow> Some (Inr (), s1)))"
| "process_files depth env token [] output_dir s = Some (Inr (), s)"
| "process_files depth env token (file_info # rest) output_dir s =
     (case process_file depth env token file_info output_dir s of
        None \<Rightarrow> None
      | Some (Inl e, s1) \<Rightarrow> Some (Inl e, s1)
      | Some (Inr ok, s1) \<Rightarrow> process_files depth env token rest output_dir s1)"

subsection \<open>main\<close>

text \<open>The two credentials are the values of \<open>os.getenv\<close>; \<open>folder_token\<close> and
  \<open>output_dir\<close> are the command-line arguments.\<close>

definition main ::
  "nat \<Rightarrow> 'w env \<Rightarrow> ustr option \<Rightarrow> ustr option \<Rightarrow> ustr \<Rightarrow> path \<Rightarrow> 'w state
    \<Rightarrow> ((error + unit) \<times> 'w state) option" where
  "main depth env FEISHU_APP_ID FEISHU_APP_SECRET folder_token output_dir s =
     (if FEISHU_APP_ID \<in> {None, Some []} \<or> FEISHU_APP_SECRET \<in> {None, Some []} then
        Some (Inl System_exit, s)
      else
        (case get_tenant_access_token env FEISHU_APP_ID FEISHU_APP_SECRET s of
           (Inl e, s1) \<Rightarrow> Some (Inl e, s1)
         | (Inr None, s1) \<Rightarrow> Some (Inl Type_error, s1)
         | (Inr (Some token), s1) \<Rightarrow>
             (case fs_op (Mkdir output_dir) (mkdir env output_dir) s1 of
                (Inl e, s2) \<Rightarrow> Some (Inl e, s2)
              | (Inr ok, s2) \<Rightarrow>
                  (case list_files_in_folder env token (Some folder_token) s2 of
                     None \<Rightarrow> None
                   | Some (Inl e, s3) \<Rightarrow> Some (Inl e, s3)
                   | Some (Inr files, s3) \<Rightarrow>
                       process_files depth env token files output_dir s3))))"

subsection \<open>Vocabulary of the properties\<close>

text \<open>The events a run appended to the log.\<close>

definition new_events :: "'w state \<Rightarrow> 'w state \<Rightarrow> event list" where
  "new_events s s' = drop (length (snd s)) (snd s')"

text \<open>The outcome of a run together with the whole log after it.\<close>

definition run_log :: "('a \<times> 'w state) option \<Rightarrow> ('a \<times> event list) option" where
  "run_log x = (case x of None \<Rightarrow> None | Some (r, s') \<Rightarrow> Some (r, snd s'))"

text \<open>The name \<open>sanitize_filename\<close> computes before it substitutes the default.\<close>

definition cleaned :: "ustr \<Rightarrow> ustr" where
  "cleaned name = strip (filter (\<lambda>char. ord char \<ge> 32)
     (fold (\<lambda>char n. replace n char underscore) invalid_chars name))"

text \<open>The local values of \<open>process_file\<close> for one listing entry (lines 257 to 259, 279
  to 292).\<close>

definition item_name :: "file_info \<Rightarrow> ustr" where
  "item_name fi =
     sanitize_filename
       (case fi_name fi of Some n \<Rightarrow> n | None \<Rightarrow> u ''file_'' @ str (fi_token fi))"

definition item_type :: "file_info \<Rightarrow> ustr" where
  "item_type fi = (case fi_type fi of Some t \<Rightarrow> t | None \<Rightarrow> [])"

definition item_extension :: "ucd \<Rightarrow> file_info \<Rightarrow> ustr" where
  "item_extension db fi = determine_extension db (item_type fi) (item_name fi)"

definition item_path :: "ucd \<Rightarrow> path \<Rightarrow> file_info \<Rightarrow> path" where
  "item_path db output_dir fi =
     joinpath output_dir (ensure_extension db (item_name fi) (item_extension db fi))"

text \<open>The requests of the direct download, the token request, and the requests of the
  export workflow.\<close>

fun is_direct :: "event \<Rightarrow> bool" where
  "is_direct (Download_url_request h f) = True"
| "is_direct (Url_fetch url) = True"
| "is_direct ev = False"

fun is_auth :: "event \<Rightarrow> bool" where
  "is_auth (Auth_request a b) = True"
| "is_auth ev = False"

fun is_export :: "event \<Rightarrow> bool" where
  "is_export (Export_create h f t e) = True"
| "is_export (Export_query h k f) = True"
| "is_export (Export_fetch h x) = True"
| "is_export ev = False"

text \<open>The step of the export workflow an event belongs to: creating the task (0),
  polling it (1), fetching the exported file (2), creating the directory (3), writing
  (4); 5 is the handler's message and 6 an event that is no part of the workflow. For
  the direct download: asking for the URL (0), fetching it (1), the directory (2), writing
  (3), the message (4), no part of it (5).\<close>

fun export_phase :: "event \<Rightarrow> nat" where
  "export_phase (Export_create h f t e) = 0"
| "export_phase (Export_query h k f) = 1"
| "export_phase (Sleep d) = 1"
| "export_phase (Export_fetch h x) = 2"
| "export_phase (Mkdir p) = 3"
| "export_phase (Write_file p) = 4"
| "export_phase (Print_error m e) = 5"
| "export_phase ev = 6"

fun direct_phase :: "event \<Rightarrow> nat" where
  "direct_phase (Download_url_request h f) = 0"
| "direct_phase (Url_fetch url) = 1"
| "direct_phase (Mkdir p) = 2"
| "direct_phase (Write_file p) = 3"
| "direct_phase (Print_error m e) = 4"
| "direct_phase ev = 5"

text \<open>What an event of processing a listing entry into \<open>output_dir\<close> with the bearer
  token \<open>token\<close> may be: never a token request; every request to an API endpoint carries
  the headers built from \<open>token\<close>; a listing asks for pages of 50; the path of a
  directory that is created begins with the components of \<open>output_dir\<close>, and the path of
  a file that is written has at least one more; a pause lasts one second.\<close>

fun item_event :: "ustr \<Rightarrow> path \<Rightarrow> event \<Rightarrow> bool" where
  "item_event token output_dir (Auth_request a b) = False"
| "item_event token output_dir (List_request h f n pt) = (h = get_headers token \<and> n = 50)"
| "item_event token output_dir (Download_url_request h f) = (h = get_headers token)"
| "item_event token output_dir (Url_fetch url) = True"
| "item_event token output_dir (Export_create h f t e) = (h = get_headers token)"
| "item_event token output_dir (Export_query h k f) = (h = get_headers token)"
| "item_event token output_dir (Export_fetch h x) = (h = get_headers token)"
| "item_event token output_dir (Mkdir p) = prefix output_dir p"
| "item_event token output_dir (Write_file p) = strict_prefix output_dir p"
| "item_event token output_dir (Sleep d) = (d = 1)"
| "item_event token output_dir (Print_error m e) = True"

text \<open>A poll log: the query \<open>q\<close>, then a pause of one second and \<open>q\<close> again, any number
  of times; it may end after a query or after a pause.\<close>

fun poll_trace :: "event \<Rightarrow> event list \<Rightarrow> bool" where
  "poll_trace q [] = True"
| "poll_trace q [e] = (e = q)"
| "poll_trace q (e # e' # es) = (e = q \<and> e' = Sleep 1 \<and> poll_trace q es)"


text \<open>Paging as the specification words it, for a given list of pages: the environment
  answers the request for the current page token with the next page of the list, with
  code 0; every page but the last reports \<open>has_more\<close> and hands its page token to the
  next request; the last page reports no more. The result is the state after the last
  page. \<open>page_requests\<close> are the requests this sends.\<close>

fun paging ::
  "'w env \<Rightarrow> ustr \<Rightarrow> ustr option \<Rightarrow> ustr \<Rightarrow> 'w state \<Rightarrow> files_data list
    \<Rightarrow> 'w state option" where
  "paging env token folder_token page_token s [] = None"
| "paging env token folder_token page_token s (page # pages) =
     (let pt = (if page_token \<noteq> [] then Some page_token else None) in
      case request (List_request (get_headers token) folder_token 50 pt)
             (get_files env (get_headers token) folder_token 50 pt) s of
        (Inl e, s1) \<Rightarrow> None
      | (Inr data, s1) \<Rightarrow>
          if data \<noteq> page \<or> fd_code page \<noteq> 0 then None
          else if fd_has_more page
            then paging env token folder_token (fd_page_token page) s1 pages
          else if pages = [] then Some s1 else None)"

fun page_requests :: "ustr \<Rightarrow> ustr option \<Rightarrow> ustr \<Rightarrow> files_data list \<Rightarrow> event list" where
  "page_requests token folder_token page_token [] = []"
| "page_requests token folder_token page_token (page # pages) =
     List_request (get_headers token) folder_token 50
       (if page_token \<noteq> [] then Some page_token else None)
     # page_requests token folder_token (fd_page_token page) pages"





subsection \<open>A concrete environment\<close>

text \<open>How a POSIX file system without symbolic links reads a path: the component \<open>..\<close>
  leaves the directory reached so far for the one above it; at the starting directory
  the \<open>..\<close> stays in the path.\<close>

fun resolve_from :: "path \<Rightarrow> path \<Rightarrow> path" where
  "resolve_from acc [] = acc"
| "resolve_from acc (c # cs) =
     (if c = u ''..'' \<and> acc \<noteq> [] \<and> last acc \<noteq> u ''..''
      then resolve_from (butlast acc) cs
      else resolve_from (acc @ [c]) cs)"

definition resolve :: "path \<Rightarrow> path" where
  "resolve p = resolve_from [] p"

text \<open>A small world to run the model in: a clock, and the files and directories that
  exist below the working directory, each under its resolved path (the working directory
  itself, the empty path, always exists). \<open>mkdir(parents=True, exist_ok=True)\<close> fails
  when the path, or a path above it, is a file, and else creates the directories of the
  path that are missing; writing a file fails when the path is a directory. The remote
  side has five folders (\<open>root\<close>, the two-page \<open>paged\<close>, \<open>t6\<close>, \<open>up\<close> and \<open>greek\<close>),
  refuses the download URL of the file \<open>t5\<close>, answers the export query of the ticket
  \<open>denied\<close> with a non-zero code, and finishes every other export job two seconds after
  the clock started. Of the Unicode tables from code point 128 on it knows nothing: every
  such code point is its own lower case, is not cased and is not case-ignorable.\<close>

record world =
  w_clock :: real
  w_files :: "path list"
  w_dirs :: "path list"

definition item :: "string \<Rightarrow> string \<Rightarrow> string \<Rightarrow> file_info" where
  "item tok name typ =
     \<lparr>fi_token = Some (u tok), fi_name = Some (u name), fi_type = Some (u typ)\<rparr>"

text \<open>The name \<open>A.\<Sigma>\<close>, whose last character is the Greek capital sigma (code point
  931).\<close>

definition name_sigma :: ustr where
  "name_sigma = u ''A.'' @ [931]"

definition sigma_item :: file_info where
  "sigma_item =
     \<lparr>fi_token = Some (u ''t8''), fi_name = Some name_sigma, fi_type = Some (u ''file'')\<rparr>"

definition demo_listing :: "ustr option \<Rightarrow> ustr option \<Rightarrow> files_data option" where
  "demo_listing folder_token page_token =
     (if folder_token = Some (u ''root'') then
        Some \<lparr>fd_code = 0,
              fd_files = [item ''t1'' ''archive'' ''zip'', item ''t2'' ''archive.zip'' ''folder'',
                          item ''t3'' ''notes'' ''docx''],
              fd_has_more = False, fd_page_token = []\<rparr>
      else if folder_token = Some (u ''paged'') \<and> page_token = None then
        Some \<lparr>fd_code = 0, fd_files = [item ''t4'' ''plan'' ''sheet''],
              fd_has_more = True, fd_page_token = u ''p2''\<rparr>
      else if folder_token = Some (u ''paged'') \<and> page_token = Some (u ''p2'') then
        Some \<lparr>fd_code = 0, fd_files = [item ''t5'' ''raw'' ''file''],
              fd_has_more = False, fd_page_token = []\<rparr>
      else if folder_token = Some (u ''t6'') then
        Some \<lparr>fd_code = 0, fd_files = [item ''t7'' ''photo'' ''png''],
              fd_has_more = False, fd_page_token = []\<rparr>
      else if folder_token = Some (u ''up'') then
        Some \<lparr>fd_code = 0, fd_files = [item ''t6'' ''..'' ''folder''],
              fd_has_more = False, fd_page_token = []\<rparr>
      else if folder_token = Some (u ''greek'') then
        Some \<lparr>fd_code = 0, fd_files = [sigma_item], fd_has_more = False, fd_page_token = []\<rparr>
      else None)"

definition demo_status :: "ustr option \<Rightarrow> real \<Rightarrow> status_data" where
  "demo_status ticket now =
     (if ticket = Some (u ''denied'')
      then \<lparr>sd_code = 1, sd_job_status = None, sd_file_token = None, sd_task_status = None\<rparr>
      else if now < 2
      then \<lparr>sd_code = 0, sd_job_status = Some 1, sd_file_token = None, sd_task_status = None\<rparr>
      else \<lparr>sd_code = 0, sd_job_status = Some 0, sd_file_token = Some (u ''exported''),
            sd_task_status = None\<rparr>)"

definition demo_ucd :: ucd where
  "demo_ucd =
     \<lparr>ucd_lower = (\<lambda>c. [c]), ucd_cased = (\<lambda>c. False), ucd_case_ignorable = (\<lambda>c. False)\<rparr>"

definition demo_mkdir :: "path \<Rightarrow> world \<Rightarrow> bool \<times> world" where
  "demo_mkdir p w =
     (if list_ex (\<lambda>f. prefix f (resolve p)) (w_files w) then (False, w)
      else (True, w\<lparr>w_dirs := remdups (w_dirs w @ filter (\<lambda>d. d \<noteq> []) (map resolve (prefixes p)))\<rparr>))"

definition demo_write_file :: "path \<Rightarrow> content \<Rightarrow> world \<Rightarrow> bool \<times> world" where
  "demo_write_file p body w =
     (if resolve p \<in> set (w_dirs w) then (False, w)
      else (True, w\<lparr>w_files := remdups (w_files w @ [resolve p])\<rparr>))"

definition demo_env :: "world env" where
  "demo_env =
     \<lparr>post_auth = (\<lambda>app_id app_secret w.
         (Some \<lparr>td_code = 0, td_tenant_access_token = Some (u ''tok'')\<rparr>, w)),
      get_files = (\<lambda>h folder_token n page_token w. (demo_listing folder_token page_token, w)),
      get_download = (\<lambda>h file_token w.
         (if file_token = Some (u ''t5'') then None
          else Some \<lparr>ud_code = 0, ud_url = Some (u ''https://cdn/'' @ str file_token)\<rparr>, w)),
      get_url = (\<lambda>url w. (Some ''bytes'', w)),
      post_export = (\<lambda>h file_token file_type ext w.
         (Some \<lparr>kd_code = 0, kd_ticket = Some (u ''job-'' @ str file_token)\<rparr>, w)),
      get_export = (\<lambda>h ticket file_token w. (Some (demo_status ticket (w_clock w)), w)),
      get_export_file = (\<lambda>h export_file_token w. (Some ''bytes'', w)),
      mkdir = demo_mkdir,
      write_file = demo_write_file,
      time_now = w_clock,
      time_sleep = (\<lambda>d w. w\<lparr>w_clock := w_clock w + d\<rparr>),
      unicode = demo_ucd\<rparr>"


text \<open>The two pages of the folder \<open>paged\<close>.\<close>

definition demo_pages :: "files_data list" where
  "demo_pages =
     [\<lparr>fd_code = 0, fd_files = [item ''t4'' ''plan'' ''sheet''],
        fd_has_more = True, fd_page_token = u ''p2''\<rparr>,
      \<lparr>fd_code = 0, fd_files = [item ''t5'' ''raw'' ''file''],
        fd_has_more = False, fd_page_token = []\<rparr>]"

definition world0 :: world where
  "world0 = \<lparr>w_clock = 0, w_files = [], w_dirs = []\<rparr>"

definition state0 :: "world state" where
  "state0 = (world0, [])"

declare list_files_loop.simps [code]
declare query_loop.simps [code]
declare process_file.simps [simp del]
section \<open>Properties of sanitize\_filename\<close>

lemma u_Nil_iff [simp]: "u s = [] \<longleftrightarrow> s = []"
  by (simp add: u_def)

lemma length_u [simp]: "length (u s) = length s"
  by (simp add: u_def)

lemma fold_replace:
  "v \<notin> set cs \<Longrightarrow>
   fold (\<lambda>char n. replace n char v) cs s = map (\<lambda>c. if c \<in> set cs then v else c) s"
proof (induction cs arbitrary: s)
  case Nil
  then show ?case by simp
next
  case (Cons a cs)
  then have "fold (\<lambda>char n. replace n char v) cs (replace s a v)
      = map (\<lambda>c. if c \<in> set cs then v else c) (replace s a v)"
    by simp
  then show ?case by (auto simp: replace_def)
qed

lemma underscore_valid: "underscore \<notin> set invalid_chars"
  by (simp add: invalid_chars_def underscore_def)

lemma replaced_valid:
  "set (fold (\<lambda>char n. replace n char underscore) invalid_chars s) \<inter> set invalid_chars = {}"
  using underscore_valid by (auto simp: fold_replace)

lemma replace_valid_id:
  "set s \<inter> set invalid_chars = {} \<Longrightarrow>
   fold (\<lambda>char n. replace n char underscore) invalid_chars s = s"
proof -
  assume d: "set s \<inter> set invalid_chars = {}"
  have "map (\<lambda>c. if c \<in> set invalid_chars then underscore else c) s = s"
    using d by (intro map_idI) auto
  then show ?thesis using underscore_valid by (simp add: fold_replace)
qed

lemma set_strip: "set (strip s) \<subseteq> set s"
proof -
  have "set (strip s) \<subseteq> set (dropWhile isspace s)"
    unfolding strip_def using set_dropWhileD by fastforce
  also have "\<dots> \<subseteq> set s" using set_dropWhileD by fastforce
  finally show ?thesis .
qed

lemma strip_hd: "strip s \<noteq> [] \<Longrightarrow> \<not> isspace (hd (strip s))"
proof -
  assume ne: "strip s \<noteq> []"
  define t where "t = dropWhile isspace s"
  have st: "strip s = rev (dropWhile isspace (rev t))" by (simp add: strip_def t_def)
  with ne have tne: "t \<noteq> []" by auto
  then have h: "\<not> isspace (hd t)" unfolding t_def by (simp add: hd_dropWhile)
  from tne obtain x xs where t: "t = x # xs" by (cases t) auto
  have "hd (rev (dropWhile isspace (rev t))) = hd t"
  proof -
    have "dropWhile isspace (rev xs @ [x]) = dropWhile isspace (rev xs) @ [x]"
      using h t by (simp add: dropWhile_append3)
    then show ?thesis using t by (simp add: hd_append)
  qed
  with st h show ?thesis by simp
qed

lemma strip_last: "strip s \<noteq> [] \<Longrightarrow> \<not> isspace (last (strip s))"
proof -
  assume ne: "strip s \<noteq> []"
  then have "dropWhile isspace (rev (dropWhile isspace s)) \<noteq> []" by (simp add: strip_def)
  then have "\<not> isspace (hd (dropWhile isspace (rev (dropWhile isspace s))))"
    by (rule hd_dropWhile)
  then show ?thesis using ne by (simp add: strip_def last_rev)
qed

lemma strip_empty_iff: "strip s = [] \<longleftrightarrow> (\<forall>c \<in> set s. isspace c)"
proof -
  let ?t = "dropWhile isspace s"
  have "strip s = [] \<longleftrightarrow> (\<forall>c \<in> set ?t. isspace c)"
    by (simp add: strip_def dropWhile_eq_Nil_conv)
  also have "\<dots> \<longleftrightarrow> ?t = []"
  proof
    assume a: "\<forall>c \<in> set ?t. isspace c"
    show "?t = []"
    proof (rule ccontr)
      assume ne: "?t \<noteq> []"
      then have "\<not> isspace (hd ?t)" by (rule hd_dropWhile)
      moreover have "hd ?t \<in> set ?t" using ne by (rule hd_in_set)
      ultimately show False using a by blast
    qed
  next
    assume "?t = []"
    then have "set ?t = {}" by (simp only: set_empty)
    then show "\<forall>c \<in> set ?t. isspace c" by (simp only: ball_empty)
  qed
  also have "\<dots> \<longleftrightarrow> (\<forall>c \<in> set s. isspace c)"
    by (rule dropWhile_eq_Nil_conv)
  finally show ?thesis .
qed

lemma strip_id:
  assumes "s \<noteq> []" "\<not> isspace (hd s)" "\<not> isspace (last s)"
  shows "strip s = s"
proof -
  from assms(1,2) have a: "dropWhile isspace s = s" by (cases s) auto
  from assms(1,3) have "\<not> isspace (hd (rev s))" by (simp add: hd_rev)
  with assms(1) have "dropWhile isspace (rev s) = rev s" by (cases "rev s") auto
  with a show ?thesis by (simp add: strip_def)
qed

lemma sanitize_cleaned:
  "sanitize_filename name = (if cleaned name \<noteq> [] then cleaned name else u ''unnamed_file'')"
  by (simp add: sanitize_filename_def cleaned_def Let_def)

lemma cleaned_valid: "set (cleaned name) \<inter> set invalid_chars = {}"
proof -
  have "set (cleaned name) \<subseteq> set (fold (\<lambda>char n. replace n char underscore) invalid_chars name)"
    unfolding cleaned_def using set_strip by fastforce
  then show ?thesis using replaced_valid by blast
qed

lemma cleaned_printable: "c \<in> set (cleaned name) \<Longrightarrow> 32 \<le> ord c"
  unfolding cleaned_def using set_strip by fastforce

lemma unnamed_facts:
  "set (u ''unnamed_file'') \<inter> set invalid_chars = {}"
  "\<forall>c \<in> set (u ''unnamed_file''). 32 \<le> ord c"
  "\<not> isspace (hd (u ''unnamed_file''))" "\<not> isspace (last (u ''unnamed_file''))"
  by (simp_all add: invalid_chars_def ord_def isspace_def u_def)

lemma sanitize_valid: "set (sanitize_filename name) \<inter> set invalid_chars = {}"
  using cleaned_valid unnamed_facts(1) by (simp add: sanitize_cleaned)

lemma sanitize_printable: "c \<in> set (sanitize_filename name) \<Longrightarrow> 32 \<le> ord c"
  using cleaned_printable unnamed_facts(2) by (auto simp: sanitize_cleaned split: if_splits)

lemma sanitize_nonempty: "sanitize_filename name \<noteq> []"
  by (simp add: sanitize_cleaned)

lemma sanitize_hd: "\<not> isspace (hd (sanitize_filename name))"
  using strip_hd[of "filter (\<lambda>char. ord char \<ge> 32)
     (fold (\<lambda>char n. replace n char underscore) invalid_chars name)"] unnamed_facts(3)
  by (simp add: sanitize_cleaned cleaned_def)

lemma sanitize_last: "\<not> isspace (last (sanitize_filename name))"
  using strip_last[of "filter (\<lambda>char. ord char \<ge> 32)
     (fold (\<lambda>char n. replace n char underscore) invalid_chars name)"] unnamed_facts(4)
  by (simp add: sanitize_cleaned cleaned_def)

lemma cleaned_empty_iff:
  "cleaned name = [] \<longleftrightarrow> (\<forall>c \<in> set name. ord c < 32 \<or> isspace c)"
proof -
  let ?r = "fold (\<lambda>char n. replace n char underscore) invalid_chars name"
  let ?f = "filter (\<lambda>char. ord char \<ge> 32) ?r"
  have inv: "\<And>c. c \<in> set invalid_chars \<Longrightarrow> \<not> isspace c \<and> 32 \<le> ord c"
    by (auto simp: invalid_chars_def isspace_def ord_def)
  have us: "\<not> isspace underscore \<and> 32 \<le> ord underscore"
    by (simp add: isspace_def ord_def underscore_def)
  have "cleaned name = [] \<longleftrightarrow> (\<forall>c \<in> set ?f. isspace c)"
    unfolding cleaned_def by (rule strip_empty_iff)
  also have "\<dots> \<longleftrightarrow> (\<forall>c \<in> set ?r. ord c < 32 \<or> isspace c)" by auto
  also have "\<dots> \<longleftrightarrow> (\<forall>c \<in> set name. ord c < 32 \<or> isspace c)"
  proof
    assume a: "\<forall>c \<in> set ?r. ord c < 32 \<or> isspace c"
    show "\<forall>c \<in> set name. ord c < 32 \<or> isspace c"
    proof
      fix c assume c: "c \<in> set name"
      show "ord c < 32 \<or> isspace c"
      proof (cases "c \<in> set invalid_chars")
        case True
        with c have "underscore \<in> set ?r"
          using underscore_valid by (auto simp: fold_replace)
        with a us show ?thesis by fastforce
      next
        case False
        with c have "c \<in> set ?r"
          using underscore_valid by (auto simp: fold_replace)
        with a show ?thesis by blast
      qed
    qed
  next
    assume a: "\<forall>c \<in> set name. ord c < 32 \<or> isspace c"
    show "\<forall>c \<in> set ?r. ord c < 32 \<or> isspace c"
    proof
      fix c assume "c \<in> set ?r"
      then obtain d where d: "d \<in> set name" "c = (if d \<in> set invalid_chars then underscore else d)"
        using underscore_valid by (auto simp: fold_replace)
      from a d(1) have "ord d < 32 \<or> isspace d" by blast
      with inv[of d] have "d \<notin> set invalid_chars" by fastforce
      with d a show "ord c < 32 \<or> isspace c" by simp
    qed
  qed
  finally show ?thesis .
qed

lemma sanitize_stripped: "strip (sanitize_filename name) = sanitize_filename name"
  using sanitize_nonempty sanitize_hd sanitize_last by (rule strip_id)

text \<open>
  Claim C8. For every input string, that is, for every list of code points, the result
  of \<open>sanitize_filename\<close> holds none of the nine invalid characters and no character with
  a code point below 32, is not empty, and has no leading or trailing whitespace:
  neither its first nor its last character is one of the Unicode whitespace characters of
  \<open>str.isspace\<close>, and \<open>strip\<close> leaves it as it is. It is \<open>unnamed_file\<close> whenever the
  cleaned name is empty, which is the case exactly when every character of the input is
  a control character or whitespace.
\<close>

theorem sanitize_filename_safe:
  "set (sanitize_filename name) \<inter> set invalid_chars = {}
   \<and> (\<forall>c \<in> set (sanitize_filename name). 32 \<le> ord c)
   \<and> sanitize_filename name \<noteq> []
   \<and> \<not> isspace (hd (sanitize_filename name))
   \<and> \<not> isspace (last (sanitize_filename name))
   \<and> strip (sanitize_filename name) = sanitize_filename name
   \<and> (cleaned name = [] \<longrightarrow> sanitize_filename name = u ''unnamed_file'')
   \<and> (cleaned name = [] \<longleftrightarrow> (\<forall>c \<in> set name. ord c < 32 \<or> isspace c))"
  using sanitize_valid sanitize_printable sanitize_nonempty sanitize_hd sanitize_last
    sanitize_stripped cleaned_empty_iff
  by (simp add: sanitize_cleaned)

text \<open>The name is an ideographic space (U+3000), \<open>re:port?\<close>, the two ideographs U+62A5
  and U+544A, \<open>.PDF\<close> and an en space (U+2002); the blank name is a no-break space
  (U+00A0), a tabulator and a line separator (U+2028).\<close>

theorem sanitize_filename_safe_witness:
  "sanitize_filename ([12288] @ u ''re:port?'' @ [25253, 21578] @ u ''.PDF'' @ [8194])
     = u ''re_port_'' @ [25253, 21578] @ u ''.PDF''
   \<and> set (u ''re_port_'' @ [25253, 21578] @ u ''.PDF'') \<inter> set invalid_chars = {}
   \<and> \<not> isspace (hd (u ''re_port_'' @ [25253, 21578] @ u ''.PDF''))
   \<and> \<not> isspace (last (u ''re_port_'' @ [25253, 21578] @ u ''.PDF''))
   \<and> cleaned [160, 9, 8232] = [] \<and> sanitize_filename [160, 9, 8232] = u ''unnamed_file''"
proof -
  have a: "sanitize_filename ([12288] @ u ''re:port?'' @ [25253, 21578] @ u ''.PDF'' @ [8194])
      = u ''re_port_'' @ [25253, 21578] @ u ''.PDF''" by code_simp
  have b: "cleaned [160, 9, 8232] = []" by code_simp
  show ?thesis
    using a b
      sanitize_filename_safe[of "[12288] @ u ''re:port?'' @ [25253, 21578] @ u ''.PDF'' @ [8194]"]
      sanitize_filename_safe[of "[160, 9, 8232]"]
    by simp
qed

text \<open>
  Claim C9. \<open>sanitize_filename\<close> is idempotent on every string, that is, on every list of
  code points: sanitizing a sanitized name changes nothing.
\<close>

theorem sanitize_filename_idempotent:
  "sanitize_filename (sanitize_filename s) = sanitize_filename s"
proof -
  let ?t = "sanitize_filename s"
  have 1: "fold (\<lambda>char n. replace n char underscore) invalid_chars ?t = ?t"
    by (rule replace_valid_id) (rule sanitize_valid)
  have 2: "filter (\<lambda>char. ord char \<ge> 32) ?t = ?t"
    using sanitize_printable by (simp add: filter_id_conv)
  have 3: "strip ?t = ?t"
    using sanitize_nonempty sanitize_hd sanitize_last by (rule strip_id)
  have "cleaned ?t = ?t" by (simp add: cleaned_def 1 2 3)
  then show ?thesis using sanitize_nonempty[of s] by (simp add: sanitize_cleaned[of ?t])
qed
section \<open>The local file name\<close>

lemma lower_from_ascii:
  "\<forall>c \<in> set s. c < 128 \<Longrightarrow>
   lower_from db seen s = map (\<lambda>c. if 65 \<le> c \<and> c \<le> 90 then c + 32 else c) s"
  by (induction s arbitrary: seen) (auto simp: to_lower_full_def)

lemma length_lower_ascii: "\<forall>c \<in> set s. c < 128 \<Longrightarrow> length (lower db s) = length s"
  by (simp add: lower_def lower_from_ascii)

lemma endswith_append: "endswith (a @ b) b"
  by (simp add: endswith_def)

lemma type_ext_nonempty: "map_of TYPE_TO_EXT k = Some e \<Longrightarrow> e \<noteq> []"
  by (auto simp: TYPE_TO_EXT_def split: if_splits)

lemma type_ext_ascii:
  "map_of TYPE_TO_EXT k = Some e \<Longrightarrow> (\<forall>c \<in> set e. c < 128) \<and> 4 \<le> length e"
  by (auto simp: TYPE_TO_EXT_def u_def split: if_splits)

lemma determine_extension_cases:
  "file_name \<noteq> [] \<Longrightarrow>
   determine_extension db file_type file_name =
     (case map_of TYPE_TO_EXT (lower db file_type) of
        Some e \<Rightarrow> e
      | None \<Rightarrow> if path_suffix file_name \<noteq> [] then path_suffix file_name else u ''.bin'')"
  by (auto simp: determine_extension_def dict_get_def Let_def split: option.splits
      dest: type_ext_nonempty)

lemma determine_extension_nonempty:
  "file_name \<noteq> [] \<Longrightarrow> determine_extension db file_type file_name \<noteq> []"
  by (auto simp: determine_extension_cases split: option.splits dest: type_ext_nonempty)

lemma item_name_nonempty: "item_name fi \<noteq> []"
  by (simp add: item_name_def sanitize_nonempty)

text \<open>The local file name is never the single full stop that pathlib would drop: a name
  with the extension appended has two characters or more, and the name \<open>.\<close> has no
  suffix, so that its extension has four characters or more and is not the end of it.\<close>

lemma dot_extension_long:
  "4 \<le> length (lower db (determine_extension db file_type (u ''.'')))"
proof (cases "map_of TYPE_TO_EXT (lower db file_type)")
  case None
  have "path_suffix (u ''.'') = []" by (simp add: path_suffix_def rfind_def u_def)
  with None have "determine_extension db file_type (u ''.'') = u ''.bin''"
    by (simp add: determine_extension_cases)
  moreover have "\<forall>c \<in> set (u ''.bin''). c < 128" by (simp add: u_def)
  ultimately show ?thesis by (simp add: length_lower_ascii)
next
  case (Some e)
  then have "determine_extension db file_type (u ''.'') = e"
    by (simp add: determine_extension_cases)
  with type_ext_ascii[OF Some] show ?thesis by (simp add: length_lower_ascii)
qed

lemma final_name_not_dot:
  "ensure_extension db (item_name fi) (item_extension db fi) \<noteq> u ''.''"
proof (cases "endswith (lower db (item_name fi)) (lower db (item_extension db fi))")
  case False
  have "item_extension db fi \<noteq> []"
    unfolding item_extension_def using item_name_nonempty by (rule determine_extension_nonempty)
  with item_name_nonempty[of fi] have "2 \<le> length (item_name fi @ item_extension db fi)"
    by (cases "item_name fi"; cases "item_extension db fi") auto
  moreover have "length (u ''.'') = 1" by simp
  ultimately have "length (item_name fi @ item_extension db fi) \<noteq> length (u ''.'')"
    by linarith
  then have "item_name fi @ item_extension db fi \<noteq> u ''.''" by metis
  with False show ?thesis by (simp add: ensure_extension_def)
next
  case True
  show ?thesis
  proof
    assume "ensure_extension db (item_name fi) (item_extension db fi) = u ''.''"
    with True have n: "item_name fi = u ''.''" by (simp add: ensure_extension_def)
    have "\<forall>c \<in> set (u ''.''). c < 128" by (simp add: u_def)
    then have "length (lower db (u ''.'')) = 1" by (simp add: length_lower_ascii)
    with True n have "length (lower db (item_extension db fi)) \<le> 1"
      by (auto simp: endswith_def)
    with dot_extension_long[of db "item_type fi"] n show False
      by (simp add: item_extension_def)
  qed
qed

lemma process_file_other:
  "item_type fi \<noteq> u ''folder'' \<Longrightarrow>
   process_file depth env token fi output_dir s =
     (case handle_download env token (fi_token fi) (item_type fi)
             (item_extension (unicode env) fi) (item_path (unicode env) output_dir fi) s of
        None \<Rightarrow> None
      | Some s1 \<Rightarrow> Some (Inr (), s1))"
  by (simp add: process_file.simps[of depth env token fi output_dir s] Let_def 
      item_type_def item_name_def item_extension_def item_path_def)

text \<open>
  Claim C10 fails on an input. The remote folder \<open>greek\<close> lists one entry, of the type
  \<open>file\<close>, which is in no table, and of the name \<open>A.\<Sigma>\<close>. The sanitized name is the
  name itself, its existing suffix \<open>.\<Sigma>\<close> becomes the extension, and the name ends with
  it. But line 289 compares the lower-cased strings, and \<open>str.lower\<close> maps the sigma at
  the end of the word \<open>A.\<Sigma>\<close> to the final small sigma (U+03C2) and the sigma of \<open>.\<Sigma>\<close>,
  which follows no letter, to the small sigma (U+03C3): the test fails, the extension is
  appended a second time, and the file is written as \<open>A.\<Sigma>.\<Sigma>\<close>. This holds whatever
  the Unicode tables say from code point 128 on.
\<close>

theorem sigma_suffix_appended_twice:
  "item_type sigma_item \<noteq> u ''folder''
   \<and> map_of TYPE_TO_EXT (lower db (item_type sigma_item)) = None
   \<and> item_name sigma_item = u ''A.'' @ [931]
   \<and> path_suffix (item_name sigma_item) = u ''.'' @ [931]
   \<and> item_extension db sigma_item = u ''.'' @ [931]
   \<and> endswith (item_name sigma_item) (item_extension db sigma_item)
   \<and> lower db (item_name sigma_item) = u ''a.'' @ [962]
   \<and> lower db (item_extension db sigma_item) = u ''.'' @ [963]
   \<and> item_path db [u ''out''] sigma_item = [u ''out'', u ''A.'' @ [931] @ u ''.'' @ [931]]
   \<and> run_log (main 0 demo_env (Some (u ''id'')) (Some (u ''secret'')) (u ''greek'') [u ''out'']
               state0)
       = Some (Inr (),
           [Auth_request (Some (u ''id'')) (Some (u ''secret'')),
            Mkdir [u ''out''],
            List_request (get_headers (u ''tok'')) (Some (u ''greek'')) 50 None,
            Download_url_request (get_headers (u ''tok'')) (Some (u ''t8'')),
            Url_fetch (Some (u ''https://cdn/t8'')),
            Mkdir [u ''out''],
            Write_file [u ''out'', u ''A.'' @ [931] @ u ''.'' @ [931]]])"
proof -
  have t: "item_type sigma_item = u ''file''" by (simp add: item_type_def sigma_item_def)
  have t1: "item_type sigma_item \<noteq> u ''folder''" unfolding t by (simp add: u_def)
  have lt: "lower db (u ''file'') = u ''file''"
    by (simp add: lower_def to_lower_full_def u_def)
  have m: "map_of TYPE_TO_EXT (lower db (item_type sigma_item)) = None"
    unfolding t lt by (simp add: TYPE_TO_EXT_def u_def)
  have n: "item_name sigma_item = u ''A.'' @ [931]"
    by (simp add: item_name_def sigma_item_def name_sigma_def sanitize_filename_def u_def
        invalid_chars_def underscore_def replace_def ord_def strip_def isspace_def)
  have p: "path_suffix (u ''A.'' @ [931]) = u ''.'' @ [931]"
    by (simp add: path_suffix_def rfind_def u_def)
  have e: "item_extension db sigma_item = u ''.'' @ [931]"
    unfolding item_extension_def n using m p by (simp add: determine_extension_cases)
  have w: "endswith (u ''A.'' @ [931]) (u ''.'' @ [931])"
    by (simp add: endswith_def u_def)
  have l1: "lower db (u ''A.'' @ [931]) = u ''a.'' @ [962]"
    by (simp add: lower_def to_lower_full_def final_sigma_def case_ignorable_def cased_def u_def)
  have l2: "lower db (u ''.'' @ [931]) = u ''.'' @ [963]"
    by (simp add: lower_def to_lower_full_def final_sigma_def case_ignorable_def cased_def u_def)
  have x: "\<not> endswith (lower db (u ''A.'' @ [931])) (lower db (u ''.'' @ [931]))"
    unfolding l1 l2 by (simp add: endswith_def u_def)
  have "ensure_extension db (u ''A.'' @ [931]) (u ''.'' @ [931])
      = u ''A.'' @ [931] @ u ''.'' @ [931]"
    using x by (simp add: ensure_extension_def)
  then have ip: "item_path db [u ''out''] sigma_item
      = [u ''out'', u ''A.'' @ [931] @ u ''.'' @ [931]]"
    unfolding item_path_def n e by (simp add: joinpath_def u_def)
  have r: "run_log (main 0 demo_env (Some (u ''id'')) (Some (u ''secret'')) (u ''greek'')
               [u ''out''] state0)
       = Some (Inr (),
           [Auth_request (Some (u ''id'')) (Some (u ''secret'')),
            Mkdir [u ''out''],
            List_request (get_headers (u ''tok'')) (Some (u ''greek'')) 50 None,
            Download_url_request (get_headers (u ''tok'')) (Some (u ''t8'')),
            Url_fetch (Some (u ''https://cdn/t8'')),
            Mkdir [u ''out''],
            Write_file [u ''out'', u ''A.'' @ [931] @ u ''.'' @ [931]]])"
    by code_simp
  show ?thesis
    unfolding e unfolding n
    by (intro conjI) (rule t1 m[unfolded e n] refl p w l1 l2 ip[unfolded e n] r)+
qed
section \<open>The events of each function\<close>

lemma new_events_append: "snd s' = snd s @ evs \<Longrightarrow> new_events s s' = evs"
  by (simp add: new_events_def)


lemma request_log: "request ev call s = (r, s') \<Longrightarrow> snd s' = snd s @ [ev]"
  by (auto simp: request_def split: prod.splits option.splits)

lemma fs_op_log: "fs_op ev call s = (r, s') \<Longrightarrow> snd s' = snd s @ [ev]"
  by (auto simp: fs_op_def split: prod.splits bool.splits)

lemma print_error_log: "snd (print_error m e s) = snd s @ [Print_error m e]"
  by (simp add: print_error_def)

lemma save_log:
  "save env body p s = (r, s') \<Longrightarrow>
   snd s' = snd s @ [Mkdir (parent p)] \<or> snd s' = snd s @ [Mkdir (parent p), Write_file p]"
  by (auto simp: save_def split: prod.splits sum.splits dest!: fs_op_log)

lemma get_file_download_url_log:
  "get_file_download_url env token ft s = (r, s') \<Longrightarrow>
   snd s' = snd s @ [Download_url_request (get_headers token) ft]"
  by (auto simp: get_file_download_url_def split: prod.splits sum.splits if_splits
      dest!: request_log)

lemma download_file_log:
  "download_file env url p s = (r, s') \<Longrightarrow>
   snd s' = snd s @ [Url_fetch url]
   \<or> snd s' = snd s @ [Url_fetch url, Mkdir (parent p)]
   \<or> snd s' = snd s @ [Url_fetch url, Mkdir (parent p), Write_file p]"
  by (auto simp: download_file_def split: prod.splits sum.splits dest!: request_log save_log)

lemma direct_download_log:
  "direct_download env token ft p s = (r, s') \<Longrightarrow>
   \<exists>evs. snd s' = snd s @ Download_url_request (get_headers token) ft # evs
     \<and> (evs = [] \<or> (\<exists>url. evs = [Url_fetch url] \<or> evs = [Url_fetch url, Mkdir (parent p)]
           \<or> evs = [Url_fetch url, Mkdir (parent p), Write_file p]))"
  by (auto simp: direct_download_def split: prod.splits sum.splits
      dest!: get_file_download_url_log download_file_log)

lemma create_export_task_log:
  "create_export_task env token ft ty fe s = (r, s') \<Longrightarrow>
   snd s' = snd s @ [Export_create (get_headers token) ft ty (if fe \<noteq> [] then Some fe else None)]"
  by (auto simp: create_export_task_def Let_def split: prod.splits sum.splits if_splits
      dest!: request_log)

lemma download_exported_file_log:
  "download_exported_file env token x p s = (r, s') \<Longrightarrow>
   snd s' = snd s @ [Export_fetch (get_headers token) x]
   \<or> snd s' = snd s @ [Export_fetch (get_headers token) x, Mkdir (parent p)]
   \<or> snd s' = snd s @ [Export_fetch (get_headers token) x, Mkdir (parent p), Write_file p]"
  by (auto simp: download_exported_file_def split: prod.splits sum.splits
      dest!: request_log save_log)

lemma poll_trace_step: "poll_trace q evs \<Longrightarrow> poll_trace q (q # Sleep 1 # evs)"
  by simp

lemma poll_trace_single: "poll_trace q [q]"
  by simp

lemma query_loop_log_aux:
  assumes "query_loop env token ticket ft max_wait start s = Some y"
  shows "\<exists>evs. snd (snd y) = snd s @ evs
           \<and> poll_trace (Export_query (get_headers token) ticket ft) evs"
proof (rule query_loop.raw_induct[where P = "\<lambda>env token ticket ft max_wait start s y.
          \<exists>evs. snd (snd y) = snd s @ evs
            \<and> poll_trace (Export_query (get_headers token) ticket ft) evs", OF _ assms])
  fix f :: "'a env \<Rightarrow> ustr \<Rightarrow> ustr option \<Rightarrow> ustr option \<Rightarrow> real \<Rightarrow> real \<Rightarrow> 'a state
      \<Rightarrow> ((error + ustr option) \<times> 'a state) option"
  fix env token ticket ft max_wait start s y
  let ?q = "Export_query (get_headers token) ticket ft"
  let ?body = "if time_now env (fst s) - start < max_wait
      then case request ?q (get_export env (get_headers token) ticket ft) s of
           (Inl e, s1) \<Rightarrow> Some (Inl e, s1)
           | (Inr data, s1) \<Rightarrow>
               if sd_code data \<noteq> 0 then Some (Inl Failed_to_query_export_task, s1)
               else if sd_job_status data = Some 0 then Some (Inr (sd_file_token data), s1)
               else if sd_job_status data = Some 2 then Some (Inl Export_task_failed, s1)
               else if sd_job_status data = None \<and> sd_task_status data = Some (u ''done'')
                 then Some (Inr (sd_file_token data), s1)
               else if sd_job_status data = None \<and> sd_task_status data = Some (u ''failed'')
                 then Some (Inl Export_task_failed, s1)
               else f env token ticket ft max_wait start
                      (time_sleep env 1 (fst s1), snd s1 @ [Sleep 1])
      else Some (Inl Export_task_timed_out, s)"
  assume IH: "\<And>env token ticket ft max_wait start s y.
      f env token ticket ft max_wait start s = Some y \<Longrightarrow>
      \<exists>evs. snd (snd y) = snd s @ evs
        \<and> poll_trace (Export_query (get_headers token) ticket ft) evs"
  assume step: "?body = Some y"
  show "\<exists>evs. snd (snd y) = snd s @ evs \<and> poll_trace ?q evs"
  proof (cases "time_now env (fst s) - start < max_wait")
    case False
    with step have "snd y = s" by auto
    then show ?thesis by simp
  next
    case True
    obtain a s1 where rq: "request ?q (get_export env (get_headers token) ticket ft) s = (a, s1)"
      by (cases "request ?q (get_export env (get_headers token) ticket ft) s")
    then have l1: "snd s1 = snd s @ [?q]" by (rule request_log)
    show ?thesis
    proof (cases "f env token ticket ft max_wait start
            (time_sleep env 1 (fst s1), snd s1 @ [Sleep 1]) = Some y")
      case True
      from IH[OF True] obtain evs where
        "snd (snd y) = (snd s1 @ [Sleep 1]) @ evs" "poll_trace ?q evs" by auto
      with l1 have "snd (snd y) = snd s @ (?q # Sleep 1 # evs)
          \<and> poll_trace ?q (?q # Sleep 1 # evs)"
        by simp
      then show ?thesis by blast
    next
      case False
      with step \<open>time_now env (fst s) - start < max_wait\<close> rq have "snd y = s1"
        by (auto split: sum.splits if_splits)
      with l1 have "snd (snd y) = snd s @ [?q] \<and> poll_trace ?q [?q]" by simp
      then show ?thesis by blast
    qed
  qed
qed

lemma query_export_task_log:
  "query_export_task env token ticket ft max_wait s = Some (r, s') \<Longrightarrow>
   \<exists>evs. snd s' = snd s @ evs \<and> poll_trace (Export_query (get_headers token) ticket ft) evs"
  unfolding query_export_task_def by (drule query_loop_log_aux) simp

lemma poll_trace_all: "poll_trace q evs \<Longrightarrow> list_all (\<lambda>e. e = q \<or> e = Sleep 1) evs"
  by (induction q evs rule: poll_trace.induct) auto

lemma poll_trace_pred:
  assumes "poll_trace q evs" "P q" "P (Sleep 1)"
  shows "list_all P evs"
  using poll_trace_all[OF assms(1)] assms(2,3) by (auto simp: list_all_iff)

lemma sorted_const: "list_all (\<lambda>e. f e = (c::nat)) evs \<Longrightarrow> sorted (map f evs)"
  by (induction evs) (auto simp: list_all_iff)

lemma export_download_log:
  assumes "export_download env token ft ty ext p s = Some (r, s')"
  shows "\<exists>fe ticket polls tail.
           snd s' = snd s @ Export_create (get_headers token) ft ty fe # polls @ tail
         \<and> poll_trace (Export_query (get_headers token) ticket ft) polls
         \<and> (tail = [] \<or> (\<exists>x. tail = [Export_fetch (get_headers token) x]
               \<or> tail = [Export_fetch (get_headers token) x, Mkdir (parent p)]
               \<or> tail = [Export_fetch (get_headers token) x, Mkdir (parent p), Write_file p]))"
proof -
  define e where "e = (if ext \<noteq> [] then lstrip ext (of_char CHR ''.'') else ty)"
  obtain a s1 where c: "create_export_task env token ft ty e s = (a, s1)"
    by (cases "create_export_task env token ft ty e s")
  let ?fe = "if e \<noteq> [] then Some e else None"
  from c have l1: "snd s1 = snd s @ [Export_create (get_headers token) ft ty ?fe]"
    by (rule create_export_task_log)
  show ?thesis
  proof (cases a)
    case (Inl err)
    with assms c have "s' = s1" by (simp add: export_download_def e_def[symmetric])
    with l1 have "snd s' = snd s @ Export_create (get_headers token) ft ty ?fe # [] @ []
        \<and> poll_trace (Export_query (get_headers token) None ft) []" by simp
    then show ?thesis by blast
  next
    case (Inr ticket)
    let ?q = "Export_query (get_headers token) ticket ft"
    from assms c Inr obtain b s2 where
      q: "query_export_task env token ticket ft 60 s1 = Some (b, s2)"
      by (cases "query_export_task env token ticket ft 60 s1")
         (auto simp: export_download_def e_def[symmetric])
    then obtain polls where l2: "snd s2 = snd s1 @ polls" and pt: "poll_trace ?q polls"
      using query_export_task_log by blast
    show ?thesis
    proof (cases b)
      case (Inl err)
      with assms c \<open>a = Inr ticket\<close> q have "s' = s2"
        by (simp add: export_download_def e_def[symmetric])
      with l1 l2 have "snd s' = snd s @ Export_create (get_headers token) ft ty ?fe # polls @ []"
        by simp
      with pt show ?thesis by blast
    next
      case (Inr x)
      with assms c \<open>a = Inr ticket\<close> q have
        d: "download_exported_file env token x p s2 = (r, s')"
        by (simp add: export_download_def e_def[symmetric])
      from download_exported_file_log[OF d] l1 l2
      have "\<exists>tail. snd s' = snd s @ Export_create (get_headers token) ft ty ?fe # polls @ tail
          \<and> (tail = [Export_fetch (get_headers token) x]
               \<or> tail = [Export_fetch (get_headers token) x, Mkdir (parent p)]
               \<or> tail = [Export_fetch (get_headers token) x, Mkdir (parent p), Write_file p])"
        by auto
      with pt show ?thesis by blast
    qed
  qed
qed

lemma export_download_events:
  assumes "export_download env token ft ty ext p s = Some (r, s')"
    and "prefix out (parent p)" and "strict_prefix out p"
  shows "\<exists>fe evs. snd s' = snd s @ Export_create (get_headers token) ft ty fe # evs
         \<and> sorted (map export_phase evs)
         \<and> list_all (\<lambda>e. export_phase e \<in> {1, 2, 3, 4} \<and> item_event token out e) evs"
proof -
  from export_download_log[OF assms(1)] obtain fe ticket polls tail where
    l: "snd s' = snd s @ Export_create (get_headers token) ft ty fe # polls @ tail"
    and pt: "poll_trace (Export_query (get_headers token) ticket ft) polls"
    and tl: "tail = [] \<or> (\<exists>x. tail = [Export_fetch (get_headers token) x]
               \<or> tail = [Export_fetch (get_headers token) x, Mkdir (parent p)]
               \<or> tail = [Export_fetch (get_headers token) x, Mkdir (parent p), Write_file p])"
    by blast
  have p1: "list_all (\<lambda>e. export_phase e = 1) polls"
    by (rule poll_trace_pred[OF pt]) simp_all
  have p2: "list_all (item_event token out) polls"
    by (rule poll_trace_pred[OF pt]) simp_all
  have t1: "sorted (map export_phase tail) \<and> list_all (\<lambda>e. export_phase e \<in> {2, 3, 4}) tail
      \<and> list_all (item_event token out) tail"
    using tl assms(2,3) by auto
  have "sorted (map export_phase (polls @ tail))"
    using sorted_const[OF p1] p1 t1 by (auto simp: sorted_append list_all_iff)
  moreover have "list_all (\<lambda>e. export_phase e \<in> {1, 2, 3, 4} \<and> item_event token out e)
      (polls @ tail)"
    using p1 p2 t1 by (auto simp: list_all_iff)
  ultimately show ?thesis using l by blast
qed

lemma direct_download_events:
  assumes "direct_download env token ft p s = (r, s')"
    and "prefix out (parent p)" and "strict_prefix out p"
  shows "\<exists>evs. snd s' = snd s @ Download_url_request (get_headers token) ft # evs
         \<and> sorted (map direct_phase evs)
         \<and> list_all (\<lambda>e. direct_phase e \<in> {1, 2, 3} \<and> item_event token out e) evs"
  using direct_download_log[OF assms(1)] assms(2,3) by auto

lemma list_files_loop_log_aux:
  assumes "list_files_loop env token folder fs pt s = Some y"
  shows "\<exists>evs. snd (snd y) = snd s @ evs
           \<and> list_all (\<lambda>e. \<exists>p. e = List_request (get_headers token) folder 50 p) evs"
proof (rule list_files_loop.raw_induct[where P = "\<lambda>env token folder fs pt s y.
          \<exists>evs. snd (snd y) = snd s @ evs
            \<and> list_all (\<lambda>e. \<exists>p. e = List_request (get_headers token) folder 50 p) evs",
        OF _ assms])
  fix f :: "'a env \<Rightarrow> ustr \<Rightarrow> ustr option \<Rightarrow> file_info list \<Rightarrow> ustr \<Rightarrow> 'a state
      \<Rightarrow> ((error + file_info list) \<times> 'a state) option"
  fix env token folder fs pt s y
  let ?pt = "if pt \<noteq> [] then Some (pt::ustr) else None"
  let ?rq = "List_request (get_headers token) folder 50 ?pt"
  assume IH: "\<And>env token folder fs pt s y.
      f env token folder fs pt s = Some y \<Longrightarrow>
      \<exists>evs. snd (snd y) = snd s @ evs
        \<and> list_all (\<lambda>e. \<exists>p. e = List_request (get_headers token) folder 50 p) evs"
  assume step: "(let pt = if pt \<noteq> [] then Some pt else None
      in case request (List_request (get_headers token) folder 50 pt)
               (get_files env (get_headers token) folder 50 pt) s of
         (Inl e, s1) \<Rightarrow> Some (Inl e, s1)
         | (Inr data, s1) \<Rightarrow>
             if fd_code data \<noteq> 0 then Some (Inl Failed_to_list_files, s1)
             else if \<not> fd_has_more data then Some (Inr (fs @ fd_files data), s1)
             else f env token folder (fs @ fd_files data) (fd_page_token data) s1) = Some y"
  obtain a s1 where rq: "request ?rq (get_files env (get_headers token) folder 50 ?pt) s = (a, s1)"
    by (cases "request ?rq (get_files env (get_headers token) folder 50 ?pt) s")
  then have l1: "snd s1 = snd s @ [?rq]" by (rule request_log)
  show "\<exists>evs. snd (snd y) = snd s @ evs
      \<and> list_all (\<lambda>e. \<exists>p. e = List_request (get_headers token) folder 50 p) evs"
  proof (cases "\<exists>data. a = Inr data \<and> fd_code data = 0 \<and> fd_has_more data")
    case True
    then obtain data where d: "a = Inr data" "fd_code data = 0" "fd_has_more data" by blast
    with step rq have "f env token folder (fs @ fd_files data) (fd_page_token data) s1 = Some y"
      by (simp add: Let_def)
    from IH[OF this] obtain evs where
      "snd (snd y) = snd s1 @ evs"
      "list_all (\<lambda>e. \<exists>p. e = List_request (get_headers token) folder 50 p) evs" by blast
    with l1 have "snd (snd y) = snd s @ (?rq # evs)
        \<and> list_all (\<lambda>e. \<exists>p. e = List_request (get_headers token) folder 50 p) (?rq # evs)"
      by simp
    then show ?thesis by blast
  next
    case False
    with step rq have "snd y = s1"
      by (auto simp: Let_def split: sum.splits if_splits)
    with l1 have "snd (snd y) = snd s @ [?rq]
        \<and> list_all (\<lambda>e. \<exists>p. e = List_request (get_headers token) folder 50 p) [?rq]"
      by simp
    then show ?thesis by blast
  qed
qed

lemma list_files_in_folder_events:
  "list_files_in_folder env token folder s = Some (r, s') \<Longrightarrow>
   \<exists>evs. snd s' = snd s @ evs \<and> list_all (item_event token out) evs"
proof -
  assume "list_files_in_folder env token folder s = Some (r, s')"
  then obtain evs where "snd s' = snd s @ evs"
    "list_all (\<lambda>e. \<exists>p. e = List_request (get_headers token) folder 50 p) evs"
    unfolding list_files_in_folder_def by (fastforce dest: list_files_loop_log_aux)
  moreover from this(2) have "list_all (item_event token out) evs"
    by (auto simp: list_all_iff)
  ultimately show ?thesis by blast
qed

lemma export_phase_not_direct: "export_phase e \<le> 5 \<Longrightarrow> \<not> is_direct e"
  by (cases e) auto

lemma direct_phase_not_export: "direct_phase e \<le> 4 \<Longrightarrow> \<not> is_export e"
  by (cases e) auto

lemma handle_download_native:
  assumes "lower (unicode env) ty \<in> set export_types"
    and "handle_download env token ft ty ext p s = Some s'"
    and "prefix out (parent p)" and "strict_prefix out p"
  shows "\<exists>fe evs. snd s' = snd s @ Export_create (get_headers token) ft ty fe # evs
         \<and> sorted (map export_phase evs)
         \<and> list_all (\<lambda>e. export_phase e \<in> {1, 2, 3, 4, 5} \<and> item_event token out e) evs"
proof -
  from assms(1,2) obtain r s1 where
    x: "export_download env token ft ty ext p s = Some (r, s1)"
    and s': "s' = (case r of Inl e \<Rightarrow> print_error ''Error processing file'' e s1 | Inr ok \<Rightarrow> s1)"
    by (cases "export_download env token ft ty ext p s")
       (auto simp: handle_download_def split: sum.splits)
  from export_download_events[OF x assms(3,4)] obtain fe evs where
    l: "snd s1 = snd s @ Export_create (get_headers token) ft ty fe # evs"
    and so: "sorted (map export_phase evs)"
    and al: "list_all (\<lambda>e. export_phase e \<in> {1, 2, 3, 4} \<and> item_event token out e) evs"
    by blast
  show ?thesis
  proof (cases r)
    case (Inr ok)
    with s' l have "snd s' = snd s @ Export_create (get_headers token) ft ty fe # evs" by simp
    moreover from al
    have "list_all (\<lambda>e. export_phase e \<in> {1, 2, 3, 4, 5} \<and> item_event token out e) evs"
      by (auto simp: list_all_iff)
    ultimately show ?thesis using so by blast
  next
    case (Inl e)
    let ?evs = "evs @ [Print_error ''Error processing file'' e]"
    from Inl s' l have "snd s' = snd s @ Export_create (get_headers token) ft ty fe # ?evs"
      by (simp add: print_error_log)
    moreover from so al have "sorted (map export_phase ?evs)"
      by (auto simp: sorted_append list_all_iff)
    moreover from al
    have "list_all (\<lambda>e. export_phase e \<in> {1, 2, 3, 4, 5} \<and> item_event token out e) ?evs"
      by (auto simp: list_all_iff)
    ultimately show ?thesis by blast
  qed
qed

lemma handle_download_binary:
  assumes "lower (unicode env) ty \<notin> set export_types" and "ty \<in> set binary_types"
    and "handle_download env token ft ty ext p s = Some s'"
    and "prefix out (parent p)" and "strict_prefix out p"
  shows "\<exists>evs. snd s' = snd s @ Download_url_request (get_headers token) ft # evs
         \<and> sorted (map direct_phase evs)
         \<and> list_all (\<lambda>e. direct_phase e \<in> {1, 2, 3, 4} \<and> item_event token out e) evs"
proof -
  obtain r s1 where x: "direct_download env token ft p s = (r, s1)"
    by (cases "direct_download env token ft p s")
  with assms(1,2,3) have
    s': "s' = (case r of Inl e \<Rightarrow> print_error ''Error processing file'' e s1 | Inr ok \<Rightarrow> s1)"
    by (auto simp: handle_download_def split: sum.splits)
  from direct_download_events[OF x assms(4,5)] obtain evs where
    l: "snd s1 = snd s @ Download_url_request (get_headers token) ft # evs"
    and so: "sorted (map direct_phase evs)"
    and al: "list_all (\<lambda>e. direct_phase e \<in> {1, 2, 3} \<and> item_event token out e) evs"
    by blast
  show ?thesis
  proof (cases r)
    case (Inr ok)
    with s' l have "snd s' = snd s @ Download_url_request (get_headers token) ft # evs" by simp
    moreover from al
    have "list_all (\<lambda>e. direct_phase e \<in> {1, 2, 3, 4} \<and> item_event token out e) evs"
      by (auto simp: list_all_iff)
    ultimately show ?thesis using so by blast
  next
    case (Inl e)
    let ?evs = "evs @ [Print_error ''Error processing file'' e]"
    from Inl s' l have "snd s' = snd s @ Download_url_request (get_headers token) ft # ?evs"
      by (simp add: print_error_log)
    moreover from so al have "sorted (map direct_phase ?evs)"
      by (auto simp: sorted_append list_all_iff)
    moreover from al
    have "list_all (\<lambda>e. direct_phase e \<in> {1, 2, 3, 4} \<and> item_event token out e) ?evs"
      by (auto simp: list_all_iff)
    ultimately show ?thesis by blast
  qed
qed

text \<open>An entry of any other type: the direct download comes first; when it succeeds
  nothing follows, and when it raises the handler's message and the export workflow
  follow.\<close>

lemma handle_download_other:
  assumes "lower (unicode env) ty \<notin> set export_types" and "ty \<notin> set binary_types"
    and "handle_download env token ft ty ext p s = Some s'"
    and "prefix out (parent p)" and "strict_prefix out p"
  shows "\<exists>evs. snd s' = snd s @ Download_url_request (get_headers token) ft # evs
         \<and> list_all (item_event token out) evs
         \<and> (case fst (direct_download env token ft p s) of
               Inr ok \<Rightarrow> list_all (\<lambda>e. direct_phase e \<in> {1, 2, 3}) evs
             | Inl e \<Rightarrow> (\<exists>evs1 fe evs2.
                   evs = evs1 @ Print_error ''Failed to download using download API'' e
                           # Export_create (get_headers token) ft ty fe # evs2
                 \<and> list_all (\<lambda>e. direct_phase e \<in> {1, 2, 3}) evs1
                 \<and> list_all (\<lambda>e. export_phase e \<in> {1, 2, 3, 4, 5}) evs2))"
proof -
  obtain r s1 where x: "direct_download env token ft p s = (r, s1)"
    by (cases "direct_download env token ft p s")
  from direct_download_events[OF x assms(4,5)] obtain evs1 where
    l: "snd s1 = snd s @ Download_url_request (get_headers token) ft # evs1"
    and al: "list_all (\<lambda>e. direct_phase e \<in> {1, 2, 3} \<and> item_event token out e) evs1"
    by blast
  from al have al1: "list_all (\<lambda>e. direct_phase e \<in> {1, 2, 3}) evs1"
    and al2: "list_all (item_event token out) evs1"
    by (auto simp: list_all_iff)
  show ?thesis
  proof (cases r)
    case (Inr ok)
    with assms(1,2,3) x have "s' = s1" by (simp add: handle_download_def)
    with l al1 al2 x Inr show ?thesis by auto
  next
    case (Inl e)
    let ?s2 = "print_error ''Failed to download using download API'' e s1"
    from Inl assms(1,2,3) x obtain r2 s3 where
      y: "export_download env token ft ty ext p ?s2 = Some (r2, s3)"
      and s': "s' = (case r2 of Inl e2 \<Rightarrow> print_error ''Export task also failed'' e2 s3
                      | Inr ok \<Rightarrow> s3)"
      by (cases "export_download env token ft ty ext p ?s2")
         (auto simp: handle_download_def split: sum.splits)
    from export_download_events[OF y assms(4,5)] obtain fe evs2 where
      l2: "snd s3 = snd ?s2 @ Export_create (get_headers token) ft ty fe # evs2"
      and bl: "list_all (\<lambda>e. export_phase e \<in> {1, 2, 3, 4} \<and> item_event token out e) evs2"
      by blast
    define evs3 where "evs3 = (case r2 of Inl e2 \<Rightarrow> evs2 @ [Print_error ''Export task also failed'' e2]
                      | Inr ok \<Rightarrow> evs2)"
    from bl have b1: "list_all (\<lambda>e. export_phase e \<in> {1, 2, 3, 4, 5}) evs3"
      and b2: "list_all (item_event token out) evs3"
      by (auto simp: evs3_def list_all_iff split: sum.splits)
    let ?evs = "evs1 @ Print_error ''Failed to download using download API'' e
                  # Export_create (get_headers token) ft ty fe # evs3"
    from s' l l2 have "snd s' = snd s @ Download_url_request (get_headers token) ft # ?evs"
      by (auto simp: evs3_def print_error_log split: sum.splits)
    moreover from al2 b2 have "list_all (item_event token out) ?evs" by simp
    ultimately show ?thesis using x Inl al1 b1 by auto
  qed
qed

lemma handle_download_events:
  assumes "handle_download env token ft ty ext p s = Some s'"
    and "prefix out (parent p)" and "strict_prefix out p"
  shows "\<exists>evs. snd s' = snd s @ evs \<and> list_all (item_event token out) evs"
proof -
  consider (n) "lower (unicode env) ty \<in> set export_types"
    | (b) "lower (unicode env) ty \<notin> set export_types" "ty \<in> set binary_types"
    | (o) "lower (unicode env) ty \<notin> set export_types" "ty \<notin> set binary_types" by blast
  then show ?thesis
  proof cases
    case n
    from handle_download_native[OF n assms] obtain fe evs where
      "snd s' = snd s @ Export_create (get_headers token) ft ty fe # evs"
      "list_all (\<lambda>e. export_phase e \<in> {1, 2, 3, 4, 5} \<and> item_event token out e) evs" by blast
    then have "snd s' = snd s @ Export_create (get_headers token) ft ty fe # evs
        \<and> list_all (item_event token out) (Export_create (get_headers token) ft ty fe # evs)"
      by (auto simp: list_all_iff)
    then show ?thesis by blast
  next
    case b
    from handle_download_binary[OF b assms] obtain evs where
      "snd s' = snd s @ Download_url_request (get_headers token) ft # evs"
      "list_all (\<lambda>e. direct_phase e \<in> {1, 2, 3, 4} \<and> item_event token out e) evs" by blast
    then have "snd s' = snd s @ Download_url_request (get_headers token) ft # evs
        \<and> list_all (item_event token out) (Download_url_request (get_headers token) ft # evs)"
      by (auto simp: list_all_iff)
    then show ?thesis by blast
  next
    case o
    from handle_download_other[OF o assms] obtain evs where
      "snd s' = snd s @ Download_url_request (get_headers token) ft # evs"
      "list_all (item_event token out) evs" by blast
    then have "snd s' = snd s @ Download_url_request (get_headers token) ft # evs
        \<and> list_all (item_event token out) (Download_url_request (get_headers token) ft # evs)"
      by simp
    then show ?thesis by blast
  qed
qed

section \<open>The events of process\_file\<close>

lemma process_file_folder:
  "item_type fi = u ''folder'' \<Longrightarrow>
   process_file (Suc d) env token fi output_dir s =
     (case fs_op (Mkdir (joinpath output_dir (item_name fi)))
             (mkdir env (joinpath output_dir (item_name fi))) s of
        (Inl e, s1) \<Rightarrow> Some (Inl e, s1)
      | (Inr ok, s1) \<Rightarrow>
          (case list_files_in_folder env token (fi_token fi) s1 of
             None \<Rightarrow> None
           | Some (Inl e, s2) \<Rightarrow> Some (Inr (), print_error ''Error processing folder'' e s2)
           | Some (Inr sub_files, s2) \<Rightarrow>
               (case process_files d env token sub_files (joinpath output_dir (item_name fi)) s2 of
                  None \<Rightarrow> None
                | Some (Inl e, s3) \<Rightarrow> Some (Inr (), print_error ''Error processing folder'' e s3)
                | Some (Inr ok, s3) \<Rightarrow> Some (Inr (), s3))))"
  unfolding item_type_def item_name_def
  by (simp add: process_file.simps[of "Suc d" env token fi output_dir s] Let_def)

lemma process_file_folder_0:
  "item_type fi = u ''folder'' \<Longrightarrow> process_file 0 env token fi output_dir s = None"
  by (simp add: process_file.simps[of 0 env token fi output_dir s] Let_def item_type_def)

lemma item_path_parent: "parent (item_path (unicode env) output_dir fi) = output_dir"
  using final_name_not_dot[of "unicode env" fi] by (simp add: item_path_def joinpath_def parent_def)

lemma item_path_below: "strict_prefix output_dir (item_path (unicode env) output_dir fi)"
  using final_name_not_dot[of "unicode env" fi]
  by (simp add: item_path_def joinpath_def strict_prefix_def)





lemma item_event_mono:
  "prefix out out' \<Longrightarrow> item_event token out' e \<Longrightarrow> item_event token out e"
  by (cases e) (auto simp: strict_prefix_def)

lemma process_file_other_events:
  assumes "item_type fi \<noteq> u ''folder''"
    and "process_file depth env token fi out s = Some (r, s')"
  shows "r = Inr () \<and> (\<exists>evs. snd s' = snd s @ evs \<and> list_all (item_event token out) evs)"
proof -
  from assms obtain s1 where
    h: "handle_download env token (fi_token fi) (item_type fi) (item_extension (unicode env) fi)
          (item_path (unicode env) out fi) s = Some s1" and "r = Inr ()" "s' = s1"
    by (auto simp: process_file_other split: option.splits)
  moreover have "prefix out (parent (item_path (unicode env) out fi))" by (simp add: item_path_parent)
  ultimately show ?thesis
    using handle_download_events[OF h _ item_path_below] by auto
qed

lemma process_files_events_step:
  assumes hfile: "\<And>fi out s r s'. process_file d env token fi out s = Some (r, s') \<Longrightarrow>
      \<exists>evs. snd s' = snd s @ evs \<and> list_all (item_event token out) evs"
  shows "process_files d env token fis out s = Some (r, s') \<Longrightarrow>
      \<exists>evs. snd s' = snd s @ evs \<and> list_all (item_event token out) evs"
proof (induction fis arbitrary: s)
  case Nil
  then show ?case by simp
next
  case (Cons fi fis)
  from Cons.prems obtain a s1 where p: "process_file d env token fi out s = Some (a, s1)"
    by (cases "process_file d env token fi out s") auto
  from hfile[OF p] obtain evs1 where
    e1: "snd s1 = snd s @ evs1" "list_all (item_event token out) evs1" by blast
  show ?case
  proof (cases a)
    case (Inl e)
    with Cons.prems p have "s' = s1" by simp
    with e1 show ?thesis by blast
  next
    case (Inr ok)
    with Cons.prems p have "process_files d env token fis out s1 = Some (r, s')" by simp
    from Cons.IH[OF this] obtain evs2 where
      "snd s' = snd s1 @ evs2" "list_all (item_event token out) evs2" by blast
    with e1 have "snd s' = snd s @ (evs1 @ evs2) \<and> list_all (item_event token out) (evs1 @ evs2)"
      by simp
    then show ?thesis by blast
  qed
qed

lemma folder_events:
  assumes files: "\<And>fis out s r s'. process_files d env token fis out s = Some (r, s') \<Longrightarrow>
      \<exists>evs. snd s' = snd s @ evs \<and> list_all (item_event token out) evs"
    and "item_type fi = u ''folder''"
    and "process_file (Suc d) env token fi out s = Some (r, s')"
  shows "\<exists>evs. snd s' = snd s @ Mkdir (joinpath out (item_name fi)) # evs
           \<and> list_all (item_event token (joinpath out (item_name fi))) evs"
proof -
  let ?sub = "joinpath out (item_name fi)"
  obtain a s1 where m: "fs_op (Mkdir ?sub) (mkdir env ?sub) s = (a, s1)"
    by (cases "fs_op (Mkdir ?sub) (mkdir env ?sub) s")
  then have l1: "snd s1 = snd s @ [Mkdir ?sub]" by (rule fs_op_log)
  show ?thesis
  proof (cases a)
    case (Inl e)
    with assms(2,3) m have "s' = s1" by (simp add: process_file_folder)
    with l1 have "snd s' = snd s @ Mkdir ?sub # [] \<and> list_all (item_event token ?sub) []" by simp
    then show ?thesis by blast
  next
    case (Inr ok)
    with assms(2,3) m obtain b s2 where
      li: "list_files_in_folder env token (fi_token fi) s1 = Some (b, s2)"
      by (cases "list_files_in_folder env token (fi_token fi) s1")
         (auto simp: process_file_folder)
    from list_files_in_folder_events[OF li] obtain evs2 where
      l2: "snd s2 = snd s1 @ evs2" "list_all (item_event token ?sub) evs2" by blast
    show ?thesis
    proof (cases b)
      case (Inl e)
      with assms(2,3) m \<open>a = Inr ok\<close> li
      have "s' = print_error ''Error processing folder'' e s2"
        by (simp add: process_file_folder)
      with l1 l2 have "snd s' = snd s @ Mkdir ?sub # (evs2 @ [Print_error ''Error processing folder'' e])
          \<and> list_all (item_event token ?sub) (evs2 @ [Print_error ''Error processing folder'' e])"
        by (simp add: print_error_log)
      then show ?thesis by blast
    next
      case (Inr sub_files)
      with assms(2,3) m \<open>a = Inr ok\<close> li obtain c s3 where
        pf: "process_files d env token sub_files ?sub s2 = Some (c, s3)"
        and s': "s' = (case c of Inl e \<Rightarrow> print_error ''Error processing folder'' e s3
                        | Inr ok \<Rightarrow> s3)"
        by (cases "process_files d env token sub_files ?sub s2")
           (auto simp: process_file_folder split: sum.splits)
      from files[OF pf] obtain evs3 where
        l3: "snd s3 = snd s2 @ evs3" "list_all (item_event token ?sub) evs3" by blast
      define evs4 where "evs4 = (case c of Inl e \<Rightarrow> [Print_error ''Error processing folder'' e]
                        | Inr ok \<Rightarrow> [])"
      have "snd s' = snd s @ Mkdir ?sub # (evs2 @ evs3 @ evs4)"
        using s' l1 l2 l3 by (auto simp: evs4_def print_error_log split: sum.splits)
      moreover have "list_all (item_event token ?sub) (evs2 @ evs3 @ evs4)"
        using l2 l3 by (auto simp: evs4_def split: sum.splits)
      ultimately show ?thesis by blast
    qed
  qed
qed

lemma process_file_events:
  "process_file d env token fi out s = Some (r, s') \<Longrightarrow>
   \<exists>evs. snd s' = snd s @ evs \<and> list_all (item_event token out) evs"
proof (induction d arbitrary: fi out s r s')
  case 0
  then show ?case
    using process_file_folder_0[of fi env token out s]
      process_file_other_events[of fi 0 env token out s r s']
    by (cases "item_type fi = u ''folder''") auto
next
  case (Suc d)
  show ?case
  proof (cases "item_type fi = u ''folder''")
    case False
    with Suc.prems show ?thesis using process_file_other_events by blast
  next
    case True
    let ?sub = "joinpath out (item_name fi)"
    have files: "\<And>fis out s r s'. process_files d env token fis out s = Some (r, s') \<Longrightarrow>
      \<exists>evs. snd s' = snd s @ evs \<and> list_all (item_event token out) evs"
      by (rule process_files_events_step) (rule Suc.IH)
    have "\<exists>evs. snd s' = snd s @ Mkdir ?sub # evs \<and> list_all (item_event token ?sub) evs"
    proof (rule folder_events[OF _ True Suc.prems])
      fix fis out s r s'
      assume "process_files d env token fis out s = Some (r, s')"
      then show "\<exists>evs. snd s' = snd s @ evs \<and> list_all (item_event token out) evs"
        by (rule files)
    qed
    then obtain evs where
      e: "snd s' = snd s @ Mkdir ?sub # evs" "list_all (item_event token ?sub) evs" by blast
    have pre: "prefix out ?sub" by (simp add: joinpath_def)
    from e(2) have "list_all (item_event token out) evs"
      using item_event_mono[OF pre] by (auto simp: list_all_iff)
    with e(1) pre have "snd s' = snd s @ (Mkdir ?sub # evs)
        \<and> list_all (item_event token out) (Mkdir ?sub # evs)" by simp
    then show ?thesis by blast
  qed
qed

lemma process_files_events:
  "process_files d env token fis out s = Some (r, s') \<Longrightarrow>
   \<exists>evs. snd s' = snd s @ evs \<and> list_all (item_event token out) evs"
  by (rule process_files_events_step) (rule process_file_events)

section \<open>The download workflow of an entry\<close>



text \<open>
  Claim C2, as amended. An entry that is not a folder never makes \<open>process_file\<close> raise.
  When its lower-cased type is a native document format the run makes requests of the
  export workflow and none of the direct download; when its type is a binary type it
  makes requests of the direct download and none of the export workflow. For any other
  type the direct download comes first, and requests of the export workflow follow it
  exactly when the direct download raised: the log splits into a part without export
  requests and a later part without direct requests.
\<close>

theorem one_workflow_unless_fallback:
  assumes "item_type fi \<noteq> u ''folder''"
    and "process_file depth env token fi output_dir s = Some (r, s')"
  shows "r = Inr ()
    \<and> (lower (unicode env) (item_type fi) \<in> set export_types \<longrightarrow>
          list_ex is_export (new_events s s') \<and> \<not> list_ex is_direct (new_events s s'))
    \<and> (lower (unicode env) (item_type fi) \<notin> set export_types \<and> item_type fi \<in> set binary_types \<longrightarrow>
          list_ex is_direct (new_events s s') \<and> \<not> list_ex is_export (new_events s s'))
    \<and> (lower (unicode env) (item_type fi) \<notin> set export_types \<and> item_type fi \<notin> set binary_types \<longrightarrow>
          is_direct (hd (new_events s s'))
        \<and> (list_ex is_export (new_events s s') \<longleftrightarrow>
             (\<exists>e. fst (direct_download env token (fi_token fi) (item_path (unicode env) output_dir fi) s)
                    = Inl e))
        \<and> (\<exists>evs1 evs2. new_events s s' = evs1 @ evs2
              \<and> \<not> list_ex is_export evs1 \<and> \<not> list_ex is_direct evs2))"
proof -
  from assms have h: "handle_download env token (fi_token fi) (item_type fi) (item_extension (unicode env) fi)
      (item_path (unicode env) output_dir fi) s = Some s'" and r: "r = Inr ()"
    by (auto simp: process_file_other split: option.splits)
  have pre: "prefix output_dir (parent (item_path (unicode env) output_dir fi))"
    by (simp add: item_path_parent)
  have 1: "list_ex is_export (new_events s s') \<and> \<not> list_ex is_direct (new_events s s')"
    if n: "lower (unicode env) (item_type fi) \<in> set export_types"
  proof -
    from handle_download_native[OF n h pre item_path_below] obtain fe evs where
      l: "snd s' = snd s @ Export_create (get_headers token) (fi_token fi) (item_type fi) fe # evs"
      and al: "list_all (\<lambda>e. export_phase e \<in> {1, 2, 3, 4, 5} \<and> item_event token output_dir e) evs"
      by blast
    from l have ne: "new_events s s' =
        Export_create (get_headers token) (fi_token fi) (item_type fi) fe # evs"
      by (rule new_events_append)
    have "\<not> list_ex is_direct evs"
      using al export_phase_not_direct by (fastforce simp: list_ex_iff list_all_iff)
    then show ?thesis by (simp add: ne)
  qed
  have 2: "list_ex is_direct (new_events s s') \<and> \<not> list_ex is_export (new_events s s')"
    if nx: "lower (unicode env) (item_type fi) \<notin> set export_types" and b: "item_type fi \<in> set binary_types"
  proof -
    from handle_download_binary[OF nx b h pre item_path_below] obtain evs where
      l: "snd s' = snd s @ Download_url_request (get_headers token) (fi_token fi) # evs"
      and al: "list_all (\<lambda>e. direct_phase e \<in> {1, 2, 3, 4} \<and> item_event token output_dir e) evs"
      by blast
    from l have ne: "new_events s s' =
        Download_url_request (get_headers token) (fi_token fi) # evs"
      by (rule new_events_append)
    have "\<not> list_ex is_export evs"
      using al direct_phase_not_export by (fastforce simp: list_ex_iff list_all_iff)
    then show ?thesis by (simp add: ne)
  qed
  have 3: "is_direct (hd (new_events s s'))
        \<and> (list_ex is_export (new_events s s') \<longleftrightarrow>
             (\<exists>e. fst (direct_download env token (fi_token fi) (item_path (unicode env) output_dir fi) s)
                    = Inl e))
        \<and> (\<exists>evs1 evs2. new_events s s' = evs1 @ evs2
              \<and> \<not> list_ex is_export evs1 \<and> \<not> list_ex is_direct evs2)"
    if nx: "lower (unicode env) (item_type fi) \<notin> set export_types" and nb: "item_type fi \<notin> set binary_types"
  proof -
    let ?d = "Download_url_request (get_headers token) (fi_token fi)"
    from handle_download_other[OF nx nb h pre item_path_below] obtain evs where
      l: "snd s' = snd s @ ?d # evs"
      and c: "case fst (direct_download env token (fi_token fi) (item_path (unicode env) output_dir fi) s) of
               Inr ok \<Rightarrow> list_all (\<lambda>e. direct_phase e \<in> {1, 2, 3}) evs
             | Inl e \<Rightarrow> (\<exists>evs1 fe evs2.
                   evs = evs1 @ Print_error ''Failed to download using download API'' e
                           # Export_create (get_headers token) (fi_token fi) (item_type fi) fe
                           # evs2
                 \<and> list_all (\<lambda>e. direct_phase e \<in> {1, 2, 3}) evs1
                 \<and> list_all (\<lambda>e. export_phase e \<in> {1, 2, 3, 4, 5}) evs2)"
      by blast
    from l have ne: "new_events s s' = ?d # evs" by (rule new_events_append)
    show ?thesis
    proof (cases "fst (direct_download env token (fi_token fi) (item_path (unicode env) output_dir fi) s)")
      case (Inr ok)
      with c have a: "list_all (\<lambda>e. direct_phase e \<in> {1, 2, 3}) evs" by simp
      then have nx': "\<not> list_ex is_export evs"
        using direct_phase_not_export by (fastforce simp: list_ex_iff list_all_iff)
      then have "new_events s s' = (?d # evs) @ [] \<and> \<not> list_ex is_export (?d # evs)
          \<and> \<not> list_ex is_direct []" by (simp add: ne)
      then have "\<exists>evs1 evs2. new_events s s' = evs1 @ evs2
              \<and> \<not> list_ex is_export evs1 \<and> \<not> list_ex is_direct evs2" by blast
      with nx' Inr show ?thesis by (simp add: ne)
    next
      case (Inl e)
      with c obtain evs1 fe evs2 where
        ev: "evs = evs1 @ Print_error ''Failed to download using download API'' e
                # Export_create (get_headers token) (fi_token fi) (item_type fi) fe # evs2"
        and a1: "list_all (\<lambda>e. direct_phase e \<in> {1, 2, 3}) evs1"
        and a2: "list_all (\<lambda>e. export_phase e \<in> {1, 2, 3, 4, 5}) evs2"
        by auto
      let ?tail = "Print_error ''Failed to download using download API'' e
                # Export_create (get_headers token) (fi_token fi) (item_type fi) fe # evs2"
      from a1 have n1: "\<not> list_ex is_export evs1"
        using direct_phase_not_export by (fastforce simp: list_ex_iff list_all_iff)
      from a2 have n2: "\<not> list_ex is_direct evs2"
        using export_phase_not_direct by (fastforce simp: list_ex_iff list_all_iff)
      from n1 n2 have "new_events s s' = (?d # evs1) @ ?tail \<and> \<not> list_ex is_export (?d # evs1)
          \<and> \<not> list_ex is_direct ?tail" by (simp add: ne ev)
      then have "\<exists>evs1 evs2. new_events s s' = evs1 @ evs2
              \<and> \<not> list_ex is_export evs1 \<and> \<not> list_ex is_direct evs2" by blast
      moreover have "list_ex is_export (new_events s s')" by (simp add: ne ev)
      ultimately show ?thesis using Inl by (simp add: ne)
    qed
  qed
  from r 1 2 3 show ?thesis by blast
qed

theorem one_workflow_unless_fallback_witness:
  "item_type (item ''t5'' ''raw'' ''file'') \<noteq> u ''folder''
   \<and> lower (unicode demo_env) (item_type (item ''t5'' ''raw'' ''file'')) \<notin> set export_types
   \<and> item_type (item ''t5'' ''raw'' ''file'') \<notin> set binary_types
   \<and> fst (direct_download demo_env (u ''tok'') (fi_token (item ''t5'' ''raw'' ''file''))
            (item_path (unicode demo_env) [u ''out''] (item ''t5'' ''raw'' ''file'')) state0) = Inl HTTP_error
   \<and> (\<exists>s'. process_file 0 demo_env (u ''tok'') (item ''t5'' ''raw'' ''file'') [u ''out''] state0
              = Some (Inr (), s')
         \<and> is_direct (hd (new_events state0 s'))
         \<and> list_ex is_export (new_events state0 s'))"
proof -
  have a: "item_type (item ''t5'' ''raw'' ''file'') \<noteq> u ''folder''"
    and b: "lower (unicode demo_env) (item_type (item ''t5'' ''raw'' ''file'')) \<notin> set export_types"
    and c: "item_type (item ''t5'' ''raw'' ''file'') \<notin> set binary_types"
    and d: "fst (direct_download demo_env (u ''tok'') (fi_token (item ''t5'' ''raw'' ''file''))
            (item_path (unicode demo_env) [u ''out''] (item ''t5'' ''raw'' ''file'')) state0) = Inl HTTP_error"
    by code_simp+
  have "fst (the (run_log (process_file 0 demo_env (u ''tok'') (item ''t5'' ''raw'' ''file'')
      [u ''out''] state0))) = Inr ()
    \<and> run_log (process_file 0 demo_env (u ''tok'') (item ''t5'' ''raw'' ''file'')
      [u ''out''] state0) \<noteq> None"
    by code_simp
  then obtain s1 where
    p: "process_file 0 demo_env (u ''tok'') (item ''t5'' ''raw'' ''file'') [u ''out''] state0
          = Some (Inr (), s1)"
    by (auto simp: run_log_def split: option.splits)
  from one_workflow_unless_fallback[OF a p] b c d
  have "is_direct (hd (new_events state0 s1)) \<and> list_ex is_export (new_events state0 s1)"
    by simp
  with a b c d p show ?thesis by blast
qed

text \<open>
  Claim C2 as stated fails: for an entry of type \<open>file\<close> whose download URL the
  environment refuses, one call of \<open>process_file\<close> makes a request of the direct download
  and requests of the export workflow.
\<close>

theorem both_workflows_counterexample:
  "item_type (item ''t5'' ''raw'' ''file'') \<noteq> u ''folder''
   \<and> (\<exists>r s'. process_file 0 demo_env (u ''tok'') (item ''t5'' ''raw'' ''file'') [u ''out''] state0
                = Some (r, s')
         \<and> list_ex is_direct (new_events state0 s')
         \<and> list_ex is_export (new_events state0 s'))"
proof -
  have a: "item_type (item ''t5'' ''raw'' ''file'') \<noteq> u ''folder''" by code_simp
  have "case process_file 0 demo_env (u ''tok'') (item ''t5'' ''raw'' ''file'') [u ''out''] state0 of
          None \<Rightarrow> False
        | Some (r, s') \<Rightarrow> list_ex is_direct (new_events state0 s')
                           \<and> list_ex is_export (new_events state0 s')"
    by code_simp
  with a show ?thesis by (auto split: option.splits)
qed

section \<open>Folders\<close>

lemma process_files_depth_step:
  assumes hfile: "\<And>fi out s x. process_file d env token fi out s = Some x \<Longrightarrow>
      process_file (Suc d) env token fi out s = Some x"
  shows "process_files d env token fis out s = Some y \<Longrightarrow>
      process_files (Suc d) env token fis out s = Some y"
proof (induction fis arbitrary: s)
  case Nil
  then show ?case by simp
next
  case (Cons fi fis)
  from Cons.prems obtain a s1 where p: "process_file d env token fi out s = Some (a, s1)"
    by (cases "process_file d env token fi out s") auto
  from hfile[OF p] have p': "process_file (Suc d) env token fi out s = Some (a, s1)" .
  show ?case
  proof (cases a)
    case (Inl e)
    with Cons.prems p p' show ?thesis by auto
  next
    case (Inr ok)
    with Cons.prems p have "process_files d env token fis out s1 = Some y" by simp
    from Cons.IH[OF this] Inr p' show ?thesis by simp
  qed
qed

text \<open>The bound on the nesting only cuts runs off: a run that returns within the bound
  \<open>d\<close> returns the same within any larger bound.\<close>

lemma process_file_depth_mono:
  "process_file d env token fi out s = Some x \<Longrightarrow>
   process_file (Suc d) env token fi out s = Some x"
proof (induction d arbitrary: fi out s x)
  case 0
  then show ?case
    using process_file_folder_0[of fi env token out s]
    by (cases "item_type fi = u ''folder''") (auto simp: process_file_other)
next
  case (Suc d)
  show ?case
  proof (cases "item_type fi = u ''folder''")
    case False
    with Suc.prems show ?thesis by (simp add: process_file_other)
  next
    case True
    have files: "\<And>fis out s y. process_files d env token fis out s = Some y \<Longrightarrow>
        process_files (Suc d) env token fis out s = Some y"
      by (rule process_files_depth_step) (rule Suc.IH)
    from Suc.prems show ?thesis
      unfolding process_file_folder[OF True]
      by (auto split: prod.splits sum.splits option.splits dest!: files)
  qed
qed

text \<open>
  Claim C3 fails on an input. The remote folder \<open>up\<close> lists one entry, a folder of the
  name \<open>..\<close>, which holds one picture. \<open>sanitize_filename\<close>, whose docstring promises a
  name that is safe for the file system, keeps this name. The path \<open>output_dir / name\<close>
  is then \<open>out/..\<close>, which the file system reads as the working directory: the \<open>mkdir\<close>
  of line 267 creates nothing, the run leaves \<open>out\<close> as the only directory, and the
  picture is written to \<open>out/../photo.png\<close>, that is, beside \<open>out\<close> and not below it. No
  subdirectory named after the folder exists under the output directory, and the local
  tree does not mirror the remote one. A folder of the name \<open>.\<close> does the same in place:
  pathlib drops the component, and the entries of the folder land in the output directory
  itself.
\<close>

theorem folder_named_dotdot_escapes:
  "item_name (item ''t6'' ''..'' ''folder'') = u ''..''
   \<and> joinpath [u ''out''] (item_name (item ''t6'' ''..'' ''folder'')) = [u ''out'', u ''..'']
   \<and> resolve [u ''out'', u ''..''] = []
   \<and> resolve [u ''out'', u ''..'', u ''photo.png''] = [u ''photo.png'']
   \<and> \<not> prefix [u ''out''] [u ''photo.png'']
   \<and> joinpath [u ''out''] (item_name (item ''t9'' ''.'' ''folder'')) = [u ''out'']
   \<and> main 2 demo_env (Some (u ''app'')) (Some (u ''secret'')) (u ''up'') [u ''out''] state0
       = Some (Inr (),
           (\<lparr>w_clock = 0, w_files = [[u ''photo.png'']], w_dirs = [[u ''out'']]\<rparr>,
            [Auth_request (Some (u ''app'')) (Some (u ''secret'')),
             Mkdir [u ''out''],
             List_request (get_headers (u ''tok'')) (Some (u ''up'')) 50 None,
             Mkdir [u ''out'', u ''..''],
             List_request (get_headers (u ''tok'')) (Some (u ''t6'')) 50 None,
             Download_url_request (get_headers (u ''tok'')) (Some (u ''t7'')),
             Url_fetch (Some (u ''https://cdn/t7'')),
             Mkdir [u ''out'', u ''..''],
             Write_file [u ''out'', u ''..'', u ''photo.png'']]))"
proof -
  have 1: "item_name (item ''t6'' ''..'' ''folder'') = u ''..''" by code_simp
  have 2: "joinpath [u ''out''] (item_name (item ''t6'' ''..'' ''folder''))
      = [u ''out'', u ''..'']" by code_simp
  have 3: "resolve [u ''out'', u ''..''] = []" by code_simp
  have 4: "resolve [u ''out'', u ''..'', u ''photo.png''] = [u ''photo.png'']" by code_simp
  have 5: "\<not> prefix [u ''out''] [u ''photo.png'']" by (simp add: u_def)
  have 6: "joinpath [u ''out''] (item_name (item ''t9'' ''.'' ''folder'')) = [u ''out'']"
    by code_simp
  have 7: "main 2 demo_env (Some (u ''app'')) (Some (u ''secret'')) (u ''up'') [u ''out''] state0
       = Some (Inr (),
           (\<lparr>w_clock = 0, w_files = [[u ''photo.png'']], w_dirs = [[u ''out'']]\<rparr>,
            [Auth_request (Some (u ''app'')) (Some (u ''secret'')),
             Mkdir [u ''out''],
             List_request (get_headers (u ''tok'')) (Some (u ''up'')) 50 None,
             Mkdir [u ''out'', u ''..''],
             List_request (get_headers (u ''tok'')) (Some (u ''t6'')) 50 None,
             Download_url_request (get_headers (u ''tok'')) (Some (u ''t7'')),
             Url_fetch (Some (u ''https://cdn/t7'')),
             Mkdir [u ''out'', u ''..''],
             Write_file [u ''out'', u ''..'', u ''photo.png'']]))"
    by code_simp
  show ?thesis by (intro conjI) (rule 1 2 3 4 5 6 7)+
qed
section \<open>Paging through a listing\<close>

lemma paging_sound:
  "paging env token folder pt s pages = Some s' \<Longrightarrow>
   list_files_loop env token folder fs pt s = Some (Inr (fs @ concat (map fd_files pages)), s')"
proof (induction pages arbitrary: fs pt s)
  case Nil
  then show ?case by simp
next
  case (Cons page pages)
  let ?pt = "if pt \<noteq> [] then Some pt else None"
  let ?rq = "List_request (get_headers token) folder 50 ?pt"
  obtain a s1 where rq: "request ?rq (get_files env (get_headers token) folder 50 ?pt) s = (a, s1)"
    by (cases "request ?rq (get_files env (get_headers token) folder 50 ?pt) s")
  with Cons.prems have a: "a = Inr page" and c: "fd_code page = 0"
    by (auto simp: Let_def split: sum.splits if_splits)
  show ?case
  proof (cases "fd_has_more page")
    case True
    with Cons.prems rq a c have "paging env token folder (fd_page_token page) s1 pages = Some s'"
      by (simp add: Let_def)
    from Cons.IH[OF this, of "fs @ fd_files page"] rq a c True show ?thesis
      by (subst list_files_loop.simps) (simp add: Let_def)
  next
    case False
    with Cons.prems rq a c have "pages = []" "s' = s1"
      by (auto simp: Let_def split: if_splits)
    with rq a c False show ?thesis
      by (subst list_files_loop.simps) (simp add: Let_def)
  qed
qed

lemma paging_complete_aux:
  assumes "list_files_loop env token folder fs pt s = Some y"
  shows "\<forall>res. fst y = Inr res \<longrightarrow>
     (\<exists>pages. paging env token folder pt s pages = Some (snd y)
        \<and> res = fs @ concat (map fd_files pages))"
proof (rule list_files_loop.raw_induct[where P = "\<lambda>env token folder fs pt s y.
      \<forall>res. fst y = Inr res \<longrightarrow>
     (\<exists>pages. paging env token folder pt s pages = Some (snd y)
        \<and> res = fs @ concat (map fd_files pages))", OF _ assms])
  fix f :: "'a env \<Rightarrow> ustr \<Rightarrow> ustr option \<Rightarrow> file_info list \<Rightarrow> ustr \<Rightarrow> 'a state
      \<Rightarrow> ((error + file_info list) \<times> 'a state) option"
  fix env token folder fs pt s y
  let ?pt = "if pt \<noteq> [] then Some (pt::ustr) else None"
  let ?rq = "List_request (get_headers token) folder 50 ?pt"
  assume IH: "\<And>env token folder fs pt s y.
      f env token folder fs pt s = Some y \<Longrightarrow>
      \<forall>res. fst y = Inr res \<longrightarrow>
       (\<exists>pages. paging env token folder pt s pages = Some (snd y)
          \<and> res = fs @ concat (map fd_files pages))"
  assume step: "(let pt = if pt \<noteq> [] then Some pt else None
      in case request (List_request (get_headers token) folder 50 pt)
               (get_files env (get_headers token) folder 50 pt) s of
         (Inl e, s1) \<Rightarrow> Some (Inl e, s1)
         | (Inr data, s1) \<Rightarrow>
             if fd_code data \<noteq> 0 then Some (Inl Failed_to_list_files, s1)
             else if \<not> fd_has_more data then Some (Inr (fs @ fd_files data), s1)
             else f env token folder (fs @ fd_files data) (fd_page_token data) s1) = Some y"
  obtain a s1 where rq: "request ?rq (get_files env (get_headers token) folder 50 ?pt) s = (a, s1)"
    by (cases "request ?rq (get_files env (get_headers token) folder 50 ?pt) s")
  show "\<forall>res. fst y = Inr res \<longrightarrow>
       (\<exists>pages. paging env token folder pt s pages = Some (snd y)
          \<and> res = fs @ concat (map fd_files pages))"
  proof (intro allI impI)
    fix res assume r: "fst y = Inr res"
    from step rq r obtain data where a: "a = Inr data" and c: "fd_code data = 0"
      by (cases a) (auto simp: Let_def split: if_splits)
    show "\<exists>pages. paging env token folder pt s pages = Some (snd y)
          \<and> res = fs @ concat (map fd_files pages)"
    proof (cases "fd_has_more data")
      case False
      with step rq a c r have "snd y = s1" "res = fs @ fd_files data"
        by (auto simp: Let_def)
      with rq a c False have "paging env token folder pt s [data] = Some (snd y)
          \<and> res = fs @ concat (map fd_files [data])"
        by (simp add: Let_def)
      then show ?thesis by blast
    next
      case True
      with step rq a c
      have "f env token folder (fs @ fd_files data) (fd_page_token data) s1 = Some y"
        by (simp add: Let_def)
      from IH[OF this] r obtain pages where
        p: "paging env token folder (fd_page_token data) s1 pages = Some (snd y)"
        and e: "res = (fs @ fd_files data) @ concat (map fd_files pages)" by blast
      from p rq a c True have "paging env token folder pt s (data # pages) = Some (snd y)"
        by (simp add: Let_def)
      moreover from e have "res = fs @ concat (map fd_files (data # pages))" by simp
      ultimately show ?thesis by blast
    qed
  qed
qed

lemma paging_shape:
  "paging env token folder pt s pages = Some s' \<Longrightarrow>
   pages \<noteq> [] \<and> list_all fd_has_more (butlast pages) \<and> \<not> fd_has_more (last pages)
   \<and> list_all (\<lambda>p. fd_code p = 0) pages
   \<and> snd s' = snd s @ page_requests token folder pt pages"
proof (induction pages arbitrary: pt s)
  case Nil
  then show ?case by simp
next
  case (Cons page pages)
  let ?pt = "if pt \<noteq> [] then Some pt else None"
  let ?rq = "List_request (get_headers token) folder 50 ?pt"
  obtain a s1 where rq: "request ?rq (get_files env (get_headers token) folder 50 ?pt) s = (a, s1)"
    by (cases "request ?rq (get_files env (get_headers token) folder 50 ?pt) s")
  then have l1: "snd s1 = snd s @ [?rq]" by (rule request_log)
  from rq Cons.prems have a: "a = Inr page" and c: "fd_code page = 0"
    by (auto simp: Let_def split: sum.splits if_splits)
  show ?case
  proof (cases "fd_has_more page")
    case True
    with Cons.prems rq a c have "paging env token folder (fd_page_token page) s1 pages = Some s'"
      by (simp add: Let_def)
    from Cons.IH[OF this] l1 True c show ?thesis by simp
  next
    case False
    with Cons.prems rq a c have "pages = []" "s' = s1"
      by (auto simp: Let_def split: if_splits)
    with l1 False c show ?thesis by simp
  qed
qed

text \<open>
  Claim C4. \<open>list_files_in_folder\<close> returns a list exactly when the environment serves a
  run of pages: each answered with code 0, every page but the last reporting
  \<open>has_more\<close>, the last reporting no more. It then returns the items of all the pages,
  concatenated in order, and has sent one request for each page, for 50 items, the first
  without a page token and each later one with the page token of the page before (a
  page token that is empty is not sent).
\<close>

theorem list_files_in_folder_pages:
  "(list_files_in_folder env token folder_token s = Some (Inr fs, s') \<longleftrightarrow>
      (\<exists>pages. paging env token folder_token [] s pages = Some s'
         \<and> fs = concat (map fd_files pages)))
   \<and> (\<forall>pages. paging env token folder_token [] s pages = Some s' \<longrightarrow>
         pages \<noteq> [] \<and> list_all fd_has_more (butlast pages) \<and> \<not> fd_has_more (last pages)
       \<and> list_all (\<lambda>p. fd_code p = 0) pages
       \<and> new_events s s' = page_requests token folder_token [] pages)"
proof (intro conjI iffI allI impI)
  assume "list_files_in_folder env token folder_token s = Some (Inr fs, s')"
  then show "\<exists>pages. paging env token folder_token [] s pages = Some s'
         \<and> fs = concat (map fd_files pages)"
    unfolding list_files_in_folder_def using paging_complete_aux by fastforce
next
  assume "\<exists>pages. paging env token folder_token [] s pages = Some s'
         \<and> fs = concat (map fd_files pages)"
  then show "list_files_in_folder env token folder_token s = Some (Inr fs, s')"
    unfolding list_files_in_folder_def using paging_sound[where fs = "[]"] by fastforce
next
  fix pages
  assume p: "paging env token folder_token [] s pages = Some s'"
  from paging_shape[OF p]
  show "pages \<noteq> []" "list_all fd_has_more (butlast pages)" "\<not> fd_has_more (last pages)"
    "list_all (\<lambda>p. fd_code p = 0) pages"
    "new_events s s' = page_requests token folder_token [] pages"
    by (auto dest: new_events_append)
qed

theorem list_files_in_folder_pages_witness:
  "(\<exists>s'. paging demo_env (u ''tok'') (Some (u ''paged'')) [] state0 demo_pages = Some s'
      \<and> list_files_in_folder demo_env (u ''tok'') (Some (u ''paged'')) state0
          = Some (Inr [item ''t4'' ''plan'' ''sheet'', item ''t5'' ''raw'' ''file''], s')
      \<and> new_events state0 s' =
          [List_request (get_headers (u ''tok'')) (Some (u ''paged'')) 50 None,
           List_request (get_headers (u ''tok'')) (Some (u ''paged'')) 50 (Some (u ''p2''))])"
proof -
  have "paging demo_env (u ''tok'') (Some (u ''paged'')) [] state0 demo_pages \<noteq> None"
    by code_simp
  then obtain s1 where
    p: "paging demo_env (u ''tok'') (Some (u ''paged'')) [] state0 demo_pages = Some s1" by blast
  have c: "concat (map fd_files demo_pages)
      = [item ''t4'' ''plan'' ''sheet'', item ''t5'' ''raw'' ''file'']"
    and q: "page_requests (u ''tok'') (Some (u ''paged'')) [] demo_pages =
          [List_request (get_headers (u ''tok'')) (Some (u ''paged'')) 50 None,
           List_request (get_headers (u ''tok'')) (Some (u ''paged'')) 50 (Some (u ''p2''))]"
    by (simp_all add: demo_pages_def)
  from list_files_in_folder_pages[of demo_env "(u ''tok'')" "Some (u ''paged'')" state0
      "concat (map fd_files demo_pages)" s1] p
  have "list_files_in_folder demo_env (u ''tok'') (Some (u ''paged'')) state0
          = Some (Inr (concat (map fd_files demo_pages)), s1)"
    and "new_events state0 s1 = page_requests (u ''tok'') (Some (u ''paged'')) [] demo_pages"
    by blast+
  with p c q show ?thesis by auto
qed

section \<open>The poll loop\<close>












section \<open>The whole run\<close>

lemma get_tenant_access_token_log:
  "get_tenant_access_token env app_id app_secret s = (a, s1) \<Longrightarrow>
   snd s1 = snd s @ [Auth_request app_id app_secret]"
  by (auto simp: get_tenant_access_token_def split: prod.splits sum.splits if_splits
      dest!: request_log)

lemma item_event_not_auth: "item_event token out e \<Longrightarrow> \<not> is_auth e"
  by (cases e) auto

lemma fs_op_error: "fs_op ev call s = (Inl e, s1) \<Longrightarrow> e = OS_error"
  by (auto simp: fs_op_def split: prod.splits bool.splits)

text \<open>The one exception that leaves \<open>process_file\<close>: the directory of a folder entry
  could not be created.\<close>

lemma process_file_raises:
  assumes "process_file d env token fi out s = Some (Inl e, s')"
  shows "item_type fi = u ''folder'' \<and> e = OS_error
     \<and> new_events s s' = [Mkdir (joinpath out (item_name fi))]"
proof -
  have f: "item_type fi = u ''folder''"
    using assms process_file_other_events[of fi d env token out s "Inl e" s'] by auto
  with assms obtain d' where d: "d = Suc d'"
    by (cases d) (auto simp: process_file_folder_0)
  let ?sub = "joinpath out (item_name fi)"
  obtain a s1 where m: "fs_op (Mkdir ?sub) (mkdir env ?sub) s = (a, s1)"
    by (cases "fs_op (Mkdir ?sub) (mkdir env ?sub) s")
  with assms f d have "a = Inl e" "s' = s1"
    by (auto simp: process_file_folder split: sum.splits option.splits prod.splits)
  with m fs_op_error[of "Mkdir ?sub" "mkdir env ?sub" s e s1] fs_op_log[OF m] f
  show ?thesis by (auto dest: new_events_append)
qed

text \<open>
  Claim C7, as amended. When one of the two credentials is missing or empty, \<open>main\<close>
  exits at once and makes no request. Otherwise the first event of the run is the token
  request, and it is the only token request of the run; when it yields no token the run
  ends there; when it yields the token \<open>token\<close>, every later request to an API
  endpoint (a listing, a download URL, an export task, its status, the exported file)
  carries the headers built from \<open>token\<close>. The fetch of a download URL carries no
  headers at all. The run reads no stored token: nothing precedes the token request.
\<close>

theorem main_token_once:
  "((FEISHU_APP_ID \<in> {None, Some []} \<or> FEISHU_APP_SECRET \<in> {None, Some []}) \<longrightarrow>
      main depth env FEISHU_APP_ID FEISHU_APP_SECRET folder_token output_dir s
        = Some (Inl System_exit, s))
   \<and> (FEISHU_APP_ID \<notin> {None, Some []} \<and> FEISHU_APP_SECRET \<notin> {None, Some []}
        \<and> main depth env FEISHU_APP_ID FEISHU_APP_SECRET folder_token output_dir s
             = Some (r, s') \<longrightarrow>
      (\<exists>evs. new_events s s' = Auth_request FEISHU_APP_ID FEISHU_APP_SECRET # evs
         \<and> \<not> list_ex is_auth evs
         \<and> (case fst (get_tenant_access_token env FEISHU_APP_ID FEISHU_APP_SECRET s) of
               Inr (Some token) \<Rightarrow> list_all (item_event token output_dir) evs
             | Inr None \<Rightarrow> evs = [] \<and> r = Inl Type_error
             | Inl e \<Rightarrow> evs = [] \<and> r = Inl e)))"
proof (intro conjI impI)
  assume "FEISHU_APP_ID \<in> {None, Some []} \<or> FEISHU_APP_SECRET \<in> {None, Some []}"
  then show "main depth env FEISHU_APP_ID FEISHU_APP_SECRET folder_token output_dir s
        = Some (Inl System_exit, s)"
    by (auto simp: main_def)
next
  assume h: "FEISHU_APP_ID \<notin> {None, Some []} \<and> FEISHU_APP_SECRET \<notin> {None, Some []}
        \<and> main depth env FEISHU_APP_ID FEISHU_APP_SECRET folder_token output_dir s
             = Some (r, s')"
  obtain a s1 where g: "get_tenant_access_token env FEISHU_APP_ID FEISHU_APP_SECRET s = (a, s1)"
    by (cases "get_tenant_access_token env FEISHU_APP_ID FEISHU_APP_SECRET s")
  then have l1: "snd s1 = snd s @ [Auth_request FEISHU_APP_ID FEISHU_APP_SECRET]"
    by (rule get_tenant_access_token_log)
  from h g have m: "(case a of
           Inl e \<Rightarrow> Some (Inl e, s1)
         | Inr None \<Rightarrow> Some (Inl Type_error, s1)
         | Inr (Some token) \<Rightarrow>
             (case fs_op (Mkdir output_dir) (mkdir env output_dir) s1 of
                (Inl e, s2) \<Rightarrow> Some (Inl e, s2)
              | (Inr ok, s2) \<Rightarrow>
                  (case list_files_in_folder env token (Some folder_token) s2 of
                     None \<Rightarrow> None
                   | Some (Inl e, s3) \<Rightarrow> Some (Inl e, s3)
                   | Some (Inr files, s3) \<Rightarrow>
                       process_files depth env token files output_dir s3))) = Some (r, s')"
    by (auto simp: main_def split: if_splits)
  have ev: "\<exists>evs. new_events s s' = Auth_request FEISHU_APP_ID FEISHU_APP_SECRET # evs \<and> P evs"
    if "snd s' = snd s1 @ evs" "P evs" for evs P
  proof -
    from that(1) l1
    have "snd s' = snd s @ (Auth_request FEISHU_APP_ID FEISHU_APP_SECRET # evs)" by simp
    then have "new_events s s' = Auth_request FEISHU_APP_ID FEISHU_APP_SECRET # evs"
      by (rule new_events_append)
    with that(2) show ?thesis by blast
  qed
  have noauth: "\<not> list_ex is_auth evs" if "list_all (item_event token output_dir) evs"
    for token evs
    using that item_event_not_auth by (fastforce simp: list_all_iff list_ex_iff)
  show "\<exists>evs. new_events s s' = Auth_request FEISHU_APP_ID FEISHU_APP_SECRET # evs
         \<and> \<not> list_ex is_auth evs
         \<and> (case fst (get_tenant_access_token env FEISHU_APP_ID FEISHU_APP_SECRET s) of
               Inr (Some token) \<Rightarrow> list_all (item_event token output_dir) evs
             | Inr None \<Rightarrow> evs = [] \<and> r = Inl Type_error
             | Inl e \<Rightarrow> evs = [] \<and> r = Inl e)"
  proof (cases a)
    case (Inl e)
    with m have "snd s' = snd s1 @ []" "r = Inl e" by auto
    with g Inl show ?thesis by (intro ev[of "[]"]) simp_all
  next
    case (Inr t)
    show ?thesis
    proof (cases t)
      case None
      with m Inr have "snd s' = snd s1 @ []" "r = Inl Type_error" by auto
      with g Inr None show ?thesis by (intro ev[of "[]"]) simp_all
    next
      case (Some token)
      obtain b s2 where k: "fs_op (Mkdir output_dir) (mkdir env output_dir) s1 = (b, s2)"
        by (cases "fs_op (Mkdir output_dir) (mkdir env output_dir) s1")
      then have l2: "snd s2 = snd s1 @ [Mkdir output_dir]" by (rule fs_op_log)
      have "\<exists>evs. snd s' = snd s1 @ evs \<and> list_all (item_event token output_dir) evs"
      proof (cases b)
        case (Inl e)
        with m Inr Some k have "s' = s2" by simp
        with l2 have "snd s' = snd s1 @ [Mkdir output_dir]
            \<and> list_all (item_event token output_dir) [Mkdir output_dir]" by simp
        then show ?thesis by blast
      next
        case (Inr ok)
        with m \<open>a = Inr t\<close> Some k obtain c s3 where
          li: "list_files_in_folder env token (Some folder_token) s2 = Some (c, s3)"
          by (cases "list_files_in_folder env token (Some folder_token) s2") auto
        from list_files_in_folder_events[OF li] obtain evs3 where
          l3: "snd s3 = snd s2 @ evs3" "list_all (item_event token output_dir) evs3" by blast
        show ?thesis
        proof (cases c)
          case (Inl e)
          with m \<open>a = Inr t\<close> Some k \<open>b = Inr ok\<close> li have "s' = s3" by simp
          with l2 l3 have "snd s' = snd s1 @ (Mkdir output_dir # evs3)
              \<and> list_all (item_event token output_dir) (Mkdir output_dir # evs3)" by simp
          then show ?thesis by blast
        next
          case (Inr files)
          with m \<open>a = Inr t\<close> Some k \<open>b = Inr ok\<close> li
          have "process_files depth env token files output_dir s3 = Some (r, s')" by simp
          from process_files_events[OF this] obtain evs4 where
            "snd s' = snd s3 @ evs4" "list_all (item_event token output_dir) evs4" by blast
          with l2 l3 have "snd s' = snd s1 @ (Mkdir output_dir # evs3 @ evs4)
              \<and> list_all (item_event token output_dir) (Mkdir output_dir # evs3 @ evs4)"
            by simp
          then show ?thesis by blast
        qed
      qed
      then obtain evs where e: "snd s' = snd s1 @ evs"
        "list_all (item_event token output_dir) evs" by blast
      from e(1) l1 have "new_events s s' = Auth_request FEISHU_APP_ID FEISHU_APP_SECRET # evs"
        by (intro new_events_append) simp
      with e(2) noauth[OF e(2)] g Inr Some show ?thesis by auto
    qed
  qed
qed

theorem main_token_once_witness:
  "Some (u ''app'') \<notin> {None, Some []} \<and> Some (u ''secret'') \<notin> {None, Some []}
   \<and> fst (get_tenant_access_token demo_env (Some (u ''app'')) (Some (u ''secret'')) state0) = Inr (Some (u ''tok''))
   \<and> (\<exists>s' evs. main 3 demo_env (Some (u ''app'')) (Some (u ''secret'')) (u ''paged'') [u ''out''] state0
                  = Some (Inr (), s')
         \<and> new_events state0 s' = Auth_request (Some (u ''app'')) (Some (u ''secret'')) # evs
         \<and> \<not> list_ex is_auth evs
         \<and> list_all (item_event (u ''tok'') [u ''out'']) evs
         \<and> length evs = 19)"
proof -
  have a: "Some (u ''app'') \<notin> {None, Some []} \<and> Some (u ''secret'') \<notin> {None, Some ([]::ustr)}"
    by simp
  have b: "fst (get_tenant_access_token demo_env (Some (u ''app'')) (Some (u ''secret'')) state0) = Inr (Some (u ''tok''))" by code_simp
  have "case main 3 demo_env (Some (u ''app'')) (Some (u ''secret'')) (u ''paged'') [u ''out''] state0 of
          None \<Rightarrow> False
        | Some (r, s') \<Rightarrow> r = Inr () \<and> length (new_events state0 s') = 20"
    by code_simp
  then obtain s1 where
    p: "main 3 demo_env (Some (u ''app'')) (Some (u ''secret'')) (u ''paged'') [u ''out''] state0
          = Some (Inr (), s1)"
    and n: "length (new_events state0 s1) = 20"
    by (auto split: option.splits)
  from main_token_once[of "Some (u ''app'')" "Some (u ''secret'')" 3 demo_env "(u ''paged'')" "[u ''out'']"
      state0 "Inr ()" s1] a p b
  obtain evs where "new_events state0 s1 = Auth_request (Some (u ''app'')) (Some (u ''secret'')) # evs"
    "\<not> list_ex is_auth evs"
    "list_all (item_event (u ''tok'') [u ''out'']) evs"
    by auto
  with a b p n show ?thesis by auto
qed

text \<open>
  Claim C7 as stated fails on "exactly once": with the application id not set, \<open>main\<close>
  exits with status 1 and the run makes no token request.
\<close>

theorem no_credentials_counterexample:
  "\<exists>s'. main 3 demo_env None (Some (u ''secret'')) (u ''paged'') [u ''out''] state0
            = Some (Inl System_exit, s')
       \<and> length (filter is_auth (new_events state0 s')) = 0"
proof -
  have "main 3 demo_env None (Some (u ''secret'')) (u ''paged'') [u ''out''] state0
      = Some (Inl System_exit, state0)"
    by (simp add: main_def)
  moreover have "new_events state0 state0 = []" by (simp add: new_events_def)
  ultimately show ?thesis by simp
qed

text \<open>
  Claim C5 fails on the code. The remote folder \<open>root\<close> lists a file \<open>archive\<close> of type
  \<open>zip\<close>, then a folder named \<open>archive.zip\<close>, then a document \<open>notes\<close>. The file is saved
  as \<open>out/archive.zip\<close>; creating the directory \<open>out/archive.zip\<close> for the folder then
  fails, the exception leaves \<open>process_file\<close> and \<open>main\<close>, nothing is printed, and the
  document is never processed: the log ends with the failed \<open>Mkdir\<close>.
\<close>

theorem folder_mkdir_failure_aborts_main:
  "run_log (main 3 demo_env (Some (u ''app'')) (Some (u ''secret'')) (u ''root'') [u ''out''] state0) =
     Some (Inl OS_error,
       [Auth_request (Some (u ''app'')) (Some (u ''secret'')), Mkdir [u ''out''],
        List_request (get_headers (u ''tok'')) (Some (u ''root'')) 50 None,
        Download_url_request (get_headers (u ''tok'')) (Some (u ''t1'')),
        Url_fetch (Some (u ''https://cdn/t1'')),
        Mkdir [u ''out''], Write_file [u ''out'', u ''archive.zip''],
        Mkdir [u ''out'', u ''archive.zip'']])"
  by code_simp

end
